theory Spec2Isabelle
  imports Main "HOL-Library.AList" "HOL-Library.Sublist" "HOL-Library.Code_Target_Nat"
begin

section \<open>JavaScript values and library functions used by \<^verbatim>\<open>src/index.ts\<close>\<close>

text \<open>
  A JavaScript string is a sequence of UTF-16 code units.  A code unit is modelled by its
  number (below \<open>2^16\<close>), a string by the list of its code units.  \<open>str\<close> turns a literal
  of ASCII characters into the string of their code units.
\<close>

type_synonym codeUnit = nat
type_synonym jsstring = "codeUnit list"

definition ch :: "char \<Rightarrow> codeUnit" where
  "ch c = of_char c"

definition str :: "string \<Rightarrow> jsstring" where
  "str s = map ch s"

type_synonym CanisterId = jsstring
type_synonym CanisterName = jsstring

text \<open>
  A \<^verbatim>\<open>Port\<close> is a JavaScript number, an IEEE double.  The only numbers the program makes
  are results of \<^verbatim>\<open>parseInt\<close>: an integer that a double holds exactly, or an infinity
  (\<^verbatim>\<open>NaN\<close> is rejected where it arises, and \<open>-0\<close>, which differs from \<open>0\<close> in no test the
  program makes, is \<open>Finite 0\<close>).
\<close>

datatype jsnumber = Finite int | PosInfinity | NegInfinity

type_synonym Port = jsnumber

text \<open>A number is truthy unless it is zero.\<close>

fun truthyNumber :: "jsnumber \<Rightarrow> bool" where
  "truthyNumber (Finite n) = (n \<noteq> 0)"
| "truthyNumber PosInfinity = True"
| "truthyNumber NegInfinity = True"

text \<open>
  The double nearest to a natural number, ties to the even significand; \<open>None\<close> when the
  nearest value is beyond the largest double (the number is then an infinity).
\<close>

fun bitLength :: "nat \<Rightarrow> nat" where
  "bitLength n = (if n = 0 then 0 else Suc (bitLength (n div 2)))"

declare bitLength.simps [simp del]

definition roundToDouble :: "nat \<Rightarrow> nat option" where
  "roundToDouble n =
     (if n < 2 ^ 53 then Some n
      else
        (let e = bitLength n - 53;
             q = n div 2 ^ e;
             r = n mod 2 ^ e;
             q' = (if 2 ^ e < 2 * r \<or> (2 * r = 2 ^ e \<and> odd q) then q + 1 else q);
             m = q' * 2 ^ e
         in if 2 ^ 1024 \<le> m then None else Some m))"

definition toNumber :: "bool \<Rightarrow> nat \<Rightarrow> jsnumber" where
  "toNumber negative n =
     (case roundToDouble n of
        None \<Rightarrow> (if negative then NegInfinity else PosInfinity)
      | Some m \<Rightarrow> Finite (if negative then - int m else int m))"

text \<open>\<^verbatim>\<open>Array.prototype.indexOf\<close>: the first index holding the element; \<open>None\<close> is \<open>-1\<close>.\<close>

fun indexOf :: "'a list \<Rightarrow> 'a \<Rightarrow> nat option" where
  "indexOf [] x = None"
| "indexOf (y # ys) x = (if y = x then Some 0 else map_option Suc (indexOf ys x))"

text \<open>
  \<^verbatim>\<open>Array.prototype.splice(start, deleteCount)\<close> removes up to \<open>deleteCount\<close> elements at
  \<open>start\<close> from the array in place and returns them.  The model returns the removed
  elements together with the new contents of the array.
\<close>

definition spliceJS :: "nat \<Rightarrow> nat \<Rightarrow> 'a list \<Rightarrow> 'a list \<times> 'a list" where
  "spliceJS start deleteCount xs =
     (take deleteCount (drop start xs), take start xs @ drop (start + deleteCount) xs)"

text \<open>
  \<^verbatim>\<open>String.prototype.split(sep)\<close> for a separator of one code unit: every occurrence of
  the separator cuts, and the result always has at least one segment.
\<close>

fun splitOn :: "'a \<Rightarrow> 'a list \<Rightarrow> 'a list list" where
  "splitOn c [] = [[]]"
| "splitOn c (x # xs) =
     (if x = c then [] # splitOn c xs
      else (case splitOn c xs of [] \<Rightarrow> [[x]] | t # ts \<Rightarrow> (x # t) # ts))"

text \<open>
  \<^verbatim>\<open>parseInt(s)\<close> with no radix argument: leading white space and line terminators are
  skipped, one sign is read, a \<^verbatim>\<open>0x\<close> or \<^verbatim>\<open>0X\<close> prefix selects radix 16 (radix 10
  otherwise), and the longest run of digits of that radix is the value, as a double;
  whatever follows is ignored.  With no digit the result is \<^verbatim>\<open>NaN\<close>, here \<open>None\<close>.
  (ECMAScript lets an implementation approximate a decimal numeral of more than 20
  significant digits; V8 rounds the exact value, and so does the model.)

  The white space of ECMAScript: tab, line feed, vertical tab, form feed, carriage return,
  space, no-break space, the other space separators of Unicode, line and paragraph
  separator, and the byte order mark.
\<close>

definition isWhiteSpace :: "codeUnit \<Rightarrow> bool" where
  "isWhiteSpace c =
     (c \<in> set [0x09, 0x0A, 0x0B, 0x0C, 0x0D, 0x20, 0xA0, 0x1680,
               0x2000, 0x2001, 0x2002, 0x2003, 0x2004, 0x2005, 0x2006, 0x2007, 0x2008, 0x2009,
               0x200A, 0x2028, 0x2029, 0x202F, 0x205F, 0x3000, 0xFEFF])"

definition digitValue :: "codeUnit \<Rightarrow> nat option" where
  "digitValue c =
     (if 48 \<le> c \<and> c \<le> 57 then Some (c - 48)
      else if 97 \<le> c \<and> c \<le> 122 then Some (c - 87)
      else if 65 \<le> c \<and> c \<le> 90 then Some (c - 55)
      else None)"

definition isDigitOf :: "nat \<Rightarrow> codeUnit \<Rightarrow> bool" where
  "isDigitOf radix c = (case digitValue c of None \<Rightarrow> False | Some d \<Rightarrow> d < radix)"

definition digitsValue :: "nat \<Rightarrow> jsstring \<Rightarrow> nat" where
  "digitsValue radix ds =
     foldl (\<lambda>acc c. acc * radix + (case digitValue c of None \<Rightarrow> 0 | Some d \<Rightarrow> d)) 0 ds"

definition parseInt :: "jsstring \<Rightarrow> jsnumber option" where
  "parseInt s =
     (let s1 = dropWhile isWhiteSpace s;
          negative = (take 1 s1 = str ''-'');
          s2 = (if take 1 s1 = str ''-'' \<or> take 1 s1 = str ''+'' then drop 1 s1 else s1);
          hex = (take 2 s2 = str ''0x'' \<or> take 2 s2 = str ''0X'');
          radix = (if hex then 16 else 10);
          s3 = (if hex then drop 2 s2 else s2);
          ds = takeWhile (isDigitOf radix) s3
      in if ds = [] then None else Some (toNumber negative (digitsValue radix ds)))"

text \<open>
  The decimal digits of a natural number: what a template literal prints for an integer
  below \<open>10^21\<close>, such as the length of an array.
\<close>

fun showNat :: "nat \<Rightarrow> jsstring" where
  "showNat n = (if n < 10 then [48 + n] else showNat (n div 10) @ [48 + n mod 10])"

declare showNat.simps [simp del]

text \<open>\<^verbatim>\<open>Array.prototype.join\<close>; a template literal renders an array with separator \<^verbatim>\<open>,\<close>.\<close>

fun joinWith :: "jsstring \<Rightarrow> jsstring list \<Rightarrow> jsstring" where
  "joinWith sep [] = []"
| "joinWith sep [x] = x"
| "joinWith sep (x # y # ys) = x @ sep @ joinWith sep (y # ys)"

definition quoted :: "jsstring \<Rightarrow> jsstring" where
  "quoted s = [0x27] @ s @ [0x27]"

section \<open>The path rewrite of \<^verbatim>\<open>mkApp\<close>\<close>

text \<open>
  The \<^verbatim>\<open>pathRewrite\<close> callback of \<^verbatim>\<open>mkApp\<close> (lines 175 to 187).  The destructuring
  \<^verbatim>\<open>const [path, params] = pathAndParams.split("?")\<close> takes the first two segments of the
  split; \<^verbatim>\<open>params\<close> is \<^verbatim>\<open>undefined\<close> when there is one segment only, and
  \<^verbatim>\<open>if (params)\<close> is false for \<^verbatim>\<open>undefined\<close> and for the empty string.
\<close>

definition pathRewrite :: "CanisterId \<Rightarrow> jsstring \<Rightarrow> jsstring" where
  "pathRewrite canisterId pathAndParams =
     (let segments = splitOn (ch CHR ''?'') pathAndParams;
          path = (case segments of [] \<Rightarrow> [] | p # _ \<Rightarrow> p);
          params = (case segments of _ # q # _ \<Rightarrow> Some q | _ \<Rightarrow> None);
          queryParamsString = str ''?'';
          queryParamsString =
            (case params of
               None \<Rightarrow> queryParamsString
             | Some q \<Rightarrow>
                 if q \<noteq> [] then queryParamsString @ q @ str ''&'' else queryParamsString);
          queryParamsString = queryParamsString @ str ''canisterId='' @ canisterId
      in path @ queryParamsString)"

section \<open>Plain objects used as records\<close>

text \<open>
  A \<^verbatim>\<open>Record<string, V>\<close> is a plain object created by \<^verbatim>\<open>{}\<close>: it has own properties and
  inherits from \<^verbatim>\<open>Object.prototype\<close>.  The own properties are modelled by the list of keys
  and values in creation order.

  Reading \<^verbatim>\<open>obj[k]\<close> gives the own property when there is one, the member of
  \<^verbatim>\<open>Object.prototype\<close> when \<open>k\<close> names one (a function, or \<^verbatim>\<open>Object.prototype\<close> itself
  for \<^verbatim>\<open>__proto__\<close>), and \<^verbatim>\<open>undefined\<close> otherwise.
\<close>

type_synonym 'v jsobject = "(jsstring \<times> 'v) list"

datatype 'v property = Undefined | Own 'v | Inherited jsstring

definition prototypeKeys :: "jsstring list" where
  "prototypeKeys =
     map str [''constructor'', ''__defineGetter__'', ''__defineSetter__'', ''hasOwnProperty'',
              ''__lookupGetter__'', ''__lookupSetter__'', ''isPrototypeOf'',
              ''propertyIsEnumerable'', ''toString'', ''valueOf'', ''__proto__'',
              ''toLocaleString'']"

definition getProp :: "'v jsobject \<Rightarrow> jsstring \<Rightarrow> 'v property" where
  "getProp obj k =
     (case map_of obj k of
        Some v \<Rightarrow> Own v
      | None \<Rightarrow> if k \<in> set prototypeKeys then Inherited k else Undefined)"

text \<open>
  Assigning \<^verbatim>\<open>obj[k] = v\<close> replaces the value of an own property where it stands and
  appends a new one otherwise.  The key \<^verbatim>\<open>__proto__\<close> is the exception: the assignment
  runs the setter of \<^verbatim>\<open>Object.prototype\<close>, which ignores a number or a string, so no
  property is made.
\<close>

definition setProp :: "'v jsobject \<Rightarrow> jsstring \<Rightarrow> 'v \<Rightarrow> 'v jsobject" where
  "setProp obj k v = (if k = str ''__proto__'' then obj else AList.update k v obj)"

text \<open>
  What a member of \<^verbatim>\<open>Object.prototype\<close> turns into where a string is needed (as a
  property key, or inside a template literal): the source text of a native function, as
  Node prints it, and \<^verbatim>\<open>[object Object]\<close> for \<^verbatim>\<open>Object.prototype\<close>.
\<close>

definition inheritedText :: "jsstring \<Rightarrow> jsstring" where
  "inheritedText k =
     (if k = str ''__proto__'' then str ''[object Object]''
      else if k = str ''constructor'' then str ''function Object() { [native code] }''
      else str ''function '' @ k @ str ''() { [native code] }'')"

text \<open>
  \<^verbatim>\<open>for (k in obj)\<close> and \<^verbatim>\<open>Object.keys\<close> enumerate the own keys that are array indices
  (canonical decimal numerals below \<open>2^32 - 1\<close>) in ascending numeric order first, then
  the other keys in creation order.  The members of \<^verbatim>\<open>Object.prototype\<close> are not
  enumerable.
\<close>

definition isArrayIndex :: "jsstring \<Rightarrow> bool" where
  "isArrayIndex k =
     (k \<noteq> [] \<and> list_all (isDigitOf 10) k
      \<and> (if hd k = 48 then k = [48] else True)
      \<and> digitsValue 10 k < 4294967295)"

definition forIn :: "'v jsobject \<Rightarrow> (jsstring \<times> 'v) list" where
  "forIn obj =
     sort_key (\<lambda>kv. digitsValue 10 (fst kv)) (filter (\<lambda>kv. isArrayIndex (fst kv)) obj)
     @ filter (\<lambda>kv. \<not> isArrayIndex (fst kv)) obj"

section \<open>The argument parser\<close>

record Config =
  replicaHost :: "jsstring option"
  canisterIdToPort :: "Port jsobject"
  canisterNameToPort :: "Port jsobject"
  canisterNameToId :: "CanisterId jsobject"
  canisterIdsFile :: "jsstring option"

text \<open>
  All the variables called \<^verbatim>\<open>args\<close> in \<^verbatim>\<open>getConfig\<close>, \<^verbatim>\<open>parseArgs\<close> and
  \<^verbatim>\<open>parseCanisterToPort\<close> hold a reference to the one array the caller passed
  (\<^verbatim>\<open>let args = origArgs\<close> copies the reference, and \<^verbatim>\<open>parseCanisterToPort\<close> returns the
  array it was given).  \<^verbatim>\<open>splice\<close> changes that array in place.  The model therefore
  threads the contents of this array through every function: each returns its
  JavaScript result together with the contents of the array when it returns.
\<close>

text \<open>
  The loop of \<^verbatim>\<open>parseCanisterToPort\<close> (lines 102 to 129), started from the record
  \<^verbatim>\<open>canisterToPort\<close> built so far.
\<close>

function parseCanisterToPortLoop ::
  "jsstring \<Rightarrow> Port jsobject \<Rightarrow> jsstring list \<Rightarrow> (jsstring + Port jsobject) \<times> jsstring list"
  where
  "parseCanisterToPortLoop param canisterToPort args =
     (case indexOf args param of
        None \<Rightarrow> (Inr canisterToPort, args)
      | Some canisterToPortArgIndex \<Rightarrow>
          (let canisterToPortArgs = fst (spliceJS canisterToPortArgIndex 2 args);
               args' = snd (spliceJS canisterToPortArgIndex 2 args)
           in if length canisterToPortArgs \<noteq> 2 then (Inl (str ''No value for '' @ param), args')
              else
                (let arg = canisterToPortArgs ! 1;
                     tokens = splitOn (ch CHR '':'') arg
                 in if length tokens \<noteq> 2
                    then (Inl (str ''Could not parse '' @ quoted arg), args')
                    else
                      (let canister = tokens ! 0;
                           portStr = tokens ! 1
                       in case parseInt portStr of
                            None \<Rightarrow>
                              (Inl (str ''Could not parse port '' @ quoted portStr
                                    @ str '' as number''),
                               args')
                          | Some port \<Rightarrow>
                              parseCanisterToPortLoop param
                                (setProp canisterToPort canister port) args'))))"
  by pat_completeness auto
termination
proof -
  have found: "i < length xs" if "indexOf xs x = Some i" for xs :: "jsstring list" and x i
    using that by (induction xs arbitrary: i) (auto split: if_splits)
  show ?thesis
    by (relation "measure (\<lambda>(param, canisterToPort, args). length args)")
       (auto simp: spliceJS_def dest: found)
qed

declare parseCanisterToPortLoop.simps [simp del]

definition parseCanisterToPort ::
  "jsstring \<Rightarrow> jsstring list \<Rightarrow> (jsstring + Port jsobject) \<times> jsstring list" where
  "parseCanisterToPort param args = parseCanisterToPortLoop param [] args"

definition parseCanisterIdToPort ::
  "jsstring list \<Rightarrow> (jsstring + Port jsobject) \<times> jsstring list" where
  "parseCanisterIdToPort args = parseCanisterToPort (str ''--by-id'') args"

definition parseCanisterNameToPort ::
  "jsstring list \<Rightarrow> (jsstring + Port jsobject) \<times> jsstring list" where
  "parseCanisterNameToPort args = parseCanisterToPort (str ''--by-name'') args"

text \<open>
  The two blocks of \<^verbatim>\<open>parseArgs\<close> that read \<^verbatim>\<open>--replica-host\<close> (lines 33 to 41) and
  \<^verbatim>\<open>--canister-ids-file\<close> (lines 44 to 52) are the same code for two flags: find the first
  occurrence, splice two elements out, fail when fewer than two were there, keep the second.
\<close>

definition readOption ::
  "jsstring \<Rightarrow> jsstring list \<Rightarrow> (jsstring + jsstring option) \<times> jsstring list" where
  "readOption flag args =
     (case indexOf args flag of
        None \<Rightarrow> (Inr None, args)
      | Some argIndex \<Rightarrow>
          (let optionArgs = fst (spliceJS argIndex 2 args);
               args' = snd (spliceJS argIndex 2 args)
           in if length optionArgs \<noteq> 2 then (Inl (str ''No value for '' @ flag), args')
              else (Inr (Some (optionArgs ! 1)), args')))"

definition unknownArguments :: "jsstring list \<Rightarrow> jsstring" where
  "unknownArguments args =
     str ''Error: Don'' @ [0x27] @ str ''t know what to do with '' @ showNat (length args)
       @ str '' argument(s): '' @ joinWith (str '','') args"

definition parseArgs :: "jsstring list \<Rightarrow> (jsstring + Config) \<times> jsstring list" where
  "parseArgs origArgs =
     (case readOption (str ''--replica-host'') origArgs of
        (Inl err, args) \<Rightarrow> (Inl err, args)
      | (Inr replicaHost', args) \<Rightarrow>
     (case readOption (str ''--canister-ids-file'') args of
        (Inl err, args) \<Rightarrow> (Inl err, args)
      | (Inr canisterIdsFile', args) \<Rightarrow>
     (case parseCanisterIdToPort args of
        (Inl result, args) \<Rightarrow> (Inl result, args)
      | (Inr canisterIdToPort', args) \<Rightarrow>
     (case parseCanisterNameToPort args of
        (Inl result, args) \<Rightarrow> (Inl result, args)
      | (Inr canisterNameToPort', args) \<Rightarrow>
          if length args \<noteq> 0 then (Inl (unknownArguments args), args)
          else
            (Inr \<lparr> replicaHost = replicaHost',
                   canisterIdToPort = canisterIdToPort',
                   canisterNameToPort = canisterNameToPort',
                   canisterNameToId = [],
                   canisterIdsFile = canisterIdsFile' \<rparr>,
             args)))))"

definition getConfig :: "jsstring list \<Rightarrow> (jsstring + Config) \<times> jsstring list" where
  "getConfig origArgs = parseArgs origArgs"

section \<open>Start-up: \<^verbatim>\<open>main\<close>\<close>

text \<open>
  \<^verbatim>\<open>readFileSync\<close> followed by \<^verbatim>\<open>JSON.parse\<close> is the environment: a file system maps a
  path to \<open>None\<close> when reading or parsing throws, and otherwise to the top-level keys of the
  parsed value in \<^verbatim>\<open>for ... in\<close> order, each with what \<^verbatim>\<open>values[canisterName].local\<close>
  does: it throws when the value is \<^verbatim>\<open>null\<close>, it is a string, or it is \<^verbatim>\<open>undefined\<close>
  (the value has no such field).  A \<^verbatim>\<open>local\<close> field that is not a string is outside
  the model (the file format has strings).
\<close>

datatype idsEntry = NullValue | NoLocal | Local CanisterId

type_synonym fileSystem = "jsstring \<Rightarrow> (CanisterName \<times> idsEntry) list option"

text \<open>
  A line that \<^verbatim>\<open>console.log\<close> prints from a template literal is the list of its parts: a
  piece of text, or a number (which the literal prints in the notation of JavaScript).
\<close>

datatype part = Text jsstring | Number jsnumber

type_synonym message = "part list"

text \<open>
  What \<^verbatim>\<open>main\<close> does, up to the calls of \<^verbatim>\<open>mkApp\<close>: it prints the usage and exits with
  status 0, or prints the line that states an error, then the usage, and exits with
  status 1, or starts one proxy per property of \<^verbatim>\<open>canisterIdToPort\<close> for the replica host.
  The lines printed for information (\<^verbatim>\<open>Canister ids file\<close>, the mappings) and the
  exception printed after a failed read are left out.
\<close>

datatype 'b outcome = Usage | Fatal message | Proxying jsstring 'b

text \<open>The body of the \<^verbatim>\<open>try\<close> block (lines 242 to 247); \<open>None\<close> is a thrown exception.\<close>

fun readCanisterIds ::
  "(CanisterName \<times> idsEntry) list \<Rightarrow> CanisterId jsobject \<Rightarrow> CanisterId jsobject option" where
  "readCanisterIds [] canisterNameToId' = Some canisterNameToId'"
| "readCanisterIds ((canisterName, NullValue) # values) canisterNameToId' = None"
| "readCanisterIds ((canisterName, NoLocal) # values) canisterNameToId' =
     readCanisterIds values canisterNameToId'"
| "readCanisterIds ((canisterName, Local localCanisterId) # values) canisterNameToId' =
     (if localCanisterId \<noteq> []
      then readCanisterIds values (setProp canisterNameToId' canisterName localCanisterId)
      else readCanisterIds values canisterNameToId')"

text \<open>
  Lines 236 to 254: the file is read only when \<^verbatim>\<open>canisterIdsFile\<close> is truthy (defined and
  not the empty string).
\<close>

definition loadCanisterIds ::
  "fileSystem \<Rightarrow> jsstring option \<Rightarrow> CanisterId jsobject \<Rightarrow> message + CanisterId jsobject" where
  "loadCanisterIds fs canisterIdsFile' canisterNameToId' =
     (case canisterIdsFile' of
        None \<Rightarrow> Inr canisterNameToId'
      | Some file \<Rightarrow>
          if file = [] then Inr canisterNameToId'
          else
            (case fs file of
               None \<Rightarrow> Inl [Text (str ''Could not read canister IDs from file '' @ file)]
             | Some values \<Rightarrow>
                 (case readCanisterIds values canisterNameToId' of
                    None \<Rightarrow> Inl [Text (str ''Could not read canister IDs from file '' @ file)]
                  | Some canisterNameToId'' \<Rightarrow> Inr canisterNameToId'')))"

text \<open>
  \<^verbatim>\<open>let canisterId = canisterNameToId[canisterName]\<close> followed by \<^verbatim>\<open>!canisterId\<close>: the value
  is falsy (\<open>None\<close>) when it is \<^verbatim>\<open>undefined\<close> or the empty string.  Otherwise it is used as
  a property key and printed, and both take its string.
\<close>

fun canisterIdOf :: "CanisterId property \<Rightarrow> CanisterId option" where
  "canisterIdOf Undefined = None"
| "canisterIdOf (Own canisterId) = (if canisterId = [] then None else Some canisterId)"
| "canisterIdOf (Inherited k) = Some (inheritedText k)"

text \<open>\<^verbatim>\<open>if (canisterIdToPort[canisterId])\<close>: the truthiness of what the record holds.\<close>

fun alreadyForwardedTo :: "Port property \<Rightarrow> bool" where
  "alreadyForwardedTo Undefined = False"
| "alreadyForwardedTo (Own port) = truthyNumber port"
| "alreadyForwardedTo (Inherited k) = True"

definition noCanisterId :: "CanisterName \<Rightarrow> Port \<Rightarrow> message" where
  "noCanisterId canisterName canisterPort =
     [Text (str ''No canister ID for canister name '' @ quoted canisterName
            @ str '' when trying to proxy '' @ quoted canisterName @ str '' to port ''),
      Number canisterPort]"

definition alreadyForwarded ::
  "CanisterName \<Rightarrow> Port \<Rightarrow> CanisterId \<Rightarrow> Port property \<Rightarrow> message" where
  "alreadyForwarded canisterName canisterPort canisterId existing =
     [Text (str ''Asking to forward canister '' @ quoted canisterName
            @ str '' (name) to port ''),
      Number canisterPort,
      Text (str '' but '' @ quoted canisterName @ str '' is '' @ quoted canisterId
            @ str '' (ID) and is already forwarded to port ''),
      (case existing of
         Own existingPort \<Rightarrow> Number existingPort
       | Inherited k \<Rightarrow> Text (inheritedText k)
       | Undefined \<Rightarrow> Text (str ''undefined''))]"

text \<open>
  The loop over \<^verbatim>\<open>canisterNameToPort\<close> (lines 256 to 277), over the remaining properties
  in enumeration order.
\<close>

fun resolveNames ::
  "CanisterId jsobject \<Rightarrow> (CanisterName \<times> Port) list \<Rightarrow> Port jsobject \<Rightarrow> message + Port jsobject"
  where
  "resolveNames canisterNameToId' [] canisterIdToPort' = Inr canisterIdToPort'"
| "resolveNames canisterNameToId' ((canisterName, canisterPort) # rest) canisterIdToPort' =
     (case canisterIdOf (getProp canisterNameToId' canisterName) of
        None \<Rightarrow> Inl (noCanisterId canisterName canisterPort)
      | Some canisterId \<Rightarrow>
          if alreadyForwardedTo (getProp canisterIdToPort' canisterId)
          then Inl (alreadyForwarded canisterName canisterPort canisterId
                      (getProp canisterIdToPort' canisterId))
          else
            resolveNames canisterNameToId' rest
              (setProp canisterIdToPort' canisterId canisterPort))"

text \<open>
  \<^verbatim>\<open>main\<close> (lines 200 to 290) on the arguments \<^verbatim>\<open>process.argv.slice(2)\<close>.  The array it
  hands to \<^verbatim>\<open>getConfig\<close> is not read again, so only the result of \<^verbatim>\<open>getConfig\<close> is used.
  \<^verbatim>\<open>!replicaHost\<close> holds for \<^verbatim>\<open>undefined\<close> and for the empty string.
\<close>

definition main :: "fileSystem \<Rightarrow> jsstring list \<Rightarrow> (Port jsobject) outcome" where
  "main fs args =
     (if indexOf args (str ''--help'') \<noteq> None then Usage
      else
        (case fst (getConfig args) of
           Inl parsed \<Rightarrow> Fatal [Text parsed]
         | Inr parsed \<Rightarrow>
             if length (forIn (canisterIdToPort parsed)) = 0
             then Fatal [Text (str ''No canisters to proxy'')]
             else
               (case replicaHost parsed of
                  None \<Rightarrow> Fatal [Text (str ''No replica to proxy to'')]
                | Some replicaHost' \<Rightarrow>
                    if replicaHost' = [] then Fatal [Text (str ''No replica to proxy to'')]
                    else
                      (case loadCanisterIds fs (canisterIdsFile parsed) (canisterNameToId parsed) of
                         Inl err \<Rightarrow> Fatal err
                       | Inr canisterNameToId' \<Rightarrow>
                           (case resolveNames canisterNameToId' (forIn (canisterNameToPort parsed))
                                   (canisterIdToPort parsed) of
                              Inl err \<Rightarrow> Fatal err
                            | Inr canisterIdToPort' \<Rightarrow> Proxying replicaHost' canisterIdToPort')))))"

text \<open>
  A file system for the examples: \<^verbatim>\<open>ids.json\<close> holds \<^verbatim>\<open>{"foo": {"local": "xyz"}}\<close>,
  \<^verbatim>\<open>builtin.json\<close> holds \<^verbatim>\<open>{"foo": {"local": "constructor"}}\<close>, and no other file can
  be read.
\<close>

definition exampleFiles :: fileSystem where
  "exampleFiles file =
     (if file = str ''ids.json'' then Some [(str ''foo'', Local (str ''xyz''))]
      else if file = str ''builtin.json'' then Some [(str ''foo'', Local (str ''constructor''))]
      else None)"

section \<open>Argument lists made of flag/value pairs\<close>




definition bindingOf :: "jsstring \<Rightarrow> jsstring + (jsstring \<times> Port)" where
  "bindingOf arg =
     (if length (splitOn (ch CHR '':'') arg) \<noteq> 2 then Inl ((str ''Could not parse '') @ quoted arg)
      else
        (case parseInt (splitOn (ch CHR '':'') arg ! 1) of
           None \<Rightarrow>
             Inl ((str ''Could not parse port '') @ quoted (splitOn (ch CHR '':'') arg ! 1) @ (str '' as number''))
         | Some port \<Rightarrow> Inr (splitOn (ch CHR '':'') arg ! 0, port)))"




section \<open>The array as one forward scan leaves it\<close>

text \<open>
  A second description of what is taken out of the array, as one pass from left to right
  for each stage of \<^verbatim>\<open>parseArgs\<close>, to be compared with the destructive scan above.  Each
  pass returns whether its stage goes through, and the tokens it leaves.

  \<open>scanOption\<close> takes out the first occurrence of the flag together with the token behind
  it; the stage fails when no token is behind it.
\<close>

fun scanOption :: "jsstring \<Rightarrow> jsstring list \<Rightarrow> bool \<times> jsstring list" where
  "scanOption flag [] = (True, [])"
| "scanOption flag (token # rest) =
     (if token = flag then (rest \<noteq> [], drop 1 rest)
      else (fst (scanOption flag rest), token # snd (scanOption flag rest)))"

text \<open>
  \<open>scanBindings\<close> takes out every occurrence of the flag together with the token behind
  it, up to and including the first occurrence that has no token behind it or whose value
  is no binding; the stage fails at that occurrence.
\<close>

fun scanBindings :: "jsstring \<Rightarrow> jsstring list \<Rightarrow> bool \<times> jsstring list" where
  "scanBindings flag [] = (True, [])"
| "scanBindings flag [token] = (if token = flag then (False, []) else (True, [token]))"
| "scanBindings flag (token # v # rest) =
     (if token = flag then
        (case bindingOf v of
           Inl err \<Rightarrow> (False, rest)
         | Inr binding \<Rightarrow> scanBindings flag rest)
      else (fst (scanBindings flag (v # rest)), token # snd (scanBindings flag (v # rest))))"

text \<open>
  The four stages in the order of \<^verbatim>\<open>parseArgs\<close>; a stage that fails ends the parse, and
  the parse succeeds when every stage goes through and no token is left.
\<close>

definition remainingArgs :: "jsstring list \<Rightarrow> bool \<times> jsstring list" where
  "remainingArgs args =
     (let host = scanOption (str ''--replica-host'') args in
      if \<not> fst host then host
      else
        (let idsFile = scanOption (str ''--canister-ids-file'') (snd host) in
         if \<not> fst idsFile then idsFile
         else
           (let ids = scanBindings (str ''--by-id'') (snd idsFile) in
            if \<not> fst ids then ids
            else
              (let names = scanBindings (str ''--by-name'') (snd ids) in
               if \<not> fst names then names else (snd names = [], snd names)))))"

section \<open>Basic facts about strings, records, the splice and the parsing loop\<close>

lemma ch_eq_iff [simp]: "ch a = ch b \<longleftrightarrow> a = b"
  by (simp add: ch_def)

lemma str_eq_iff [simp]: "str a = str b \<longleftrightarrow> a = b"
  by (simp add: str_def inj_map_eq_map inj_on_def)

lemma str_simps [simp]: "str [] = []" "str (c # cs) = ch c # str cs"
  by (simp_all add: str_def)

lemma set_str: "set (str s) = ch ` set s"
  by (simp add: str_def)

lemma ch_in_str [simp]: "ch c \<in> set (str s) \<longleftrightarrow> c \<in> set s"
  by (auto simp: set_str)

lemma splitOn_no_sep: "c \<notin> set s \<Longrightarrow> splitOn c s = [s]"
  by (induction s) auto

lemma splitOn_first_sep:
  "c \<notin> set p \<Longrightarrow> splitOn c (p @ c # rest) = p # splitOn c rest"
  by (induction p) auto

lemma indexOf_less: "indexOf xs x = Some i \<Longrightarrow> i < length xs"
  by (induction xs arbitrary: i) (auto split: if_splits)

lemma setProp_distinct: "distinct (map fst obj) \<Longrightarrow> distinct (map fst (setProp obj k v))"
  by (simp add: setProp_def distinct_update)

lemma map_of_setProp:
  "map_of (setProp obj k v) = (if k = str ''__proto__'' then map_of obj else (map_of obj)(k \<mapsto> v))"
  by (simp add: setProp_def update_conv')

lemma getProp_setProp:
  "getProp (setProp obj k v) k'
     = (if k' = k \<and> k \<noteq> str ''__proto__'' then Own v else getProp obj k')"
  by (simp add: getProp_def map_of_setProp)

lemma getProp_cong: "map_of obj1 = map_of obj2 \<Longrightarrow> getProp obj1 k = getProp obj2 k"
  by (simp add: getProp_def)

lemma set_forIn: "set (forIn obj) = set obj"
  by (auto simp: forIn_def)

lemma length_forIn: "length (forIn obj) = length obj"
  by (simp add: forIn_def sum_length_filter_compl)

lemma distinct_forIn:
  assumes "distinct (map fst obj)"
  shows "distinct (map fst (forIn obj))"
proof -
  have d: "distinct obj" using assms by (simp add: distinct_map)
  have "distinct (forIn obj)"
    using d by (auto simp: forIn_def)
  moreover have "inj_on fst (set (forIn obj))"
    using assms by (simp add: set_forIn distinct_map)
  ultimately show ?thesis by (simp add: distinct_map)
qed

lemma spliceJS_subseq: "subseq (snd (spliceJS i n xs)) xs"
proof -
  have "subseq (drop (i + n) xs) (drop i xs)"
    by (metis drop_drop add.commute subseq_drop_many append_take_drop_id subseq_order.order_refl)
  then have "subseq (take i xs @ drop (i + n) xs) (take i xs @ drop i xs)"
    by (simp only: subseq_append')
  then show ?thesis by (simp add: spliceJS_def)
qed

lemma spliceJS_shorter: "i < length xs \<Longrightarrow> length (snd (spliceJS i 2 xs)) < length xs"
  by (auto simp: spliceJS_def)

lemma parseCanisterToPortLoop_None:
  "indexOf args param = None \<Longrightarrow> parseCanisterToPortLoop param obj args = (Inr obj, args)"
  by (simp add: parseCanisterToPortLoop.simps)

lemma parseCanisterToPortLoop_Some:
  "indexOf args param = Some i \<Longrightarrow>
   parseCanisterToPortLoop param obj args =
     (if length (fst (spliceJS i 2 args)) \<noteq> 2
      then (Inl ((str ''No value for '') @ param), snd (spliceJS i 2 args))
      else if length (splitOn (ch CHR '':'') (fst (spliceJS i 2 args) ! 1)) \<noteq> 2
      then (Inl ((str ''Could not parse '') @ quoted (fst (spliceJS i 2 args) ! 1)), snd (spliceJS i 2 args))
      else
        (case parseInt (splitOn (ch CHR '':'') (fst (spliceJS i 2 args) ! 1) ! 1) of
           None \<Rightarrow>
             (Inl ((str ''Could not parse port '')
                   @ quoted (splitOn (ch CHR '':'') (fst (spliceJS i 2 args) ! 1) ! 1) @ (str '' as number'')),
              snd (spliceJS i 2 args))
         | Some port \<Rightarrow>
             parseCanisterToPortLoop param
               (setProp obj (splitOn (ch CHR '':'') (fst (spliceJS i 2 args) ! 1) ! 0) port)
               (snd (spliceJS i 2 args))))"
  by (subst parseCanisterToPortLoop.simps) (simp add: Let_def del: One_nat_def)

lemma parseCanisterToPortLoop_induct [case_names step]:
  assumes "\<And>obj args.
     (\<And>i c p. indexOf args param = Some i \<Longrightarrow> P (setProp obj c p) (snd (spliceJS i 2 args)))
     \<Longrightarrow> P obj args"
  shows "P obj args"
proof (induction "length args" arbitrary: obj args rule: less_induct)
  case less
  show ?case
    by (rule assms) (auto intro!: less dest: indexOf_less spliceJS_shorter)
qed

lemma parseCanisterToPortLoop_distinct:
  "fst (parseCanisterToPortLoop param obj args) = Inr obj' \<Longrightarrow> distinct (map fst obj)
   \<Longrightarrow> distinct (map fst obj')"
proof (induction obj args rule: parseCanisterToPortLoop_induct[where param = param])
  case (step obj args)
  show ?case
  proof (cases "indexOf args param")
    case None
    with step.prems show ?thesis by (simp add: parseCanisterToPortLoop_None)
  next
    case (Some i)
    with step.prems step.IH[OF Some] show ?thesis
      by (auto simp: parseCanisterToPortLoop_Some setProp_distinct split: if_splits option.splits)
  qed
qed

lemma parseCanisterToPortLoop_subseq:
  "subseq (snd (parseCanisterToPortLoop param obj args)) args"
proof (induction obj args rule: parseCanisterToPortLoop_induct[where param = param])
  case (step obj args)
  show ?case
  proof (cases "indexOf args param")
    case None
    then show ?thesis by (simp add: parseCanisterToPortLoop_None)
  next
    case (Some i)
    have s: "subseq (snd (spliceJS i 2 args)) args" by (rule spliceJS_subseq)
    have "\<And>c p. subseq (snd (parseCanisterToPortLoop param (setProp obj c p) (snd (spliceJS i 2 args)))) args"
      using step.IH[OF Some] s by (blast intro: subseq_order.trans)
    with s Some show ?thesis
      by (simp add: parseCanisterToPortLoop_Some split: option.splits)
  qed
qed

lemma resolveNames_distinct:
  "resolveNames t names ids = Inr ids' \<Longrightarrow> distinct (map fst ids) \<Longrightarrow> distinct (map fst ids')"
  by (induction t names ids rule: resolveNames.induct)
     (auto simp: setProp_distinct split: option.splits if_splits)

lemma readOption_subseq: "subseq (snd (readOption flag args)) args"
  by (auto simp: readOption_def Let_def spliceJS_subseq split: option.splits)

lemma parseArgs_subseq: "subseq (snd (parseArgs args)) args"
proof -
  obtain r1 a1 where 1: "readOption (str ''--replica-host'') args = (r1, a1)" by force
  obtain r2 a2 where 2: "readOption (str ''--canister-ids-file'') a1 = (r2, a2)" by force
  obtain r3 a3 where 3: "parseCanisterIdToPort a2 = (r3, a3)" by force
  obtain r4 a4 where 4: "parseCanisterNameToPort a3 = (r4, a4)" by force
  have s1: "subseq a1 args" using readOption_subseq[of "(str ''--replica-host'')" args] 1 by simp
  have s2: "subseq a2 a1" using readOption_subseq[of "(str ''--canister-ids-file'')" a1] 2 by simp
  have s3: "subseq a3 a2"
    using parseCanisterToPortLoop_subseq[of "(str ''--by-id'')" "[]" a2] 3
    by (simp add: parseCanisterIdToPort_def parseCanisterToPort_def)
  have s4: "subseq a4 a3"
    using parseCanisterToPortLoop_subseq[of "(str ''--by-name'')" "[]" a3] 4
    by (simp add: parseCanisterNameToPort_def parseCanisterToPort_def)
  have t2: "subseq a2 args" using s2 s1 by (rule subseq_order.trans)
  have t3: "subseq a3 args" using s3 t2 by (rule subseq_order.trans)
  have t4: "subseq a4 args" using s4 t3 by (rule subseq_order.trans)
  show ?thesis
    using 1 2 3 4 s1 t2 t3 t4
    by (simp add: parseArgs_def split: sum.splits)
qed

lemma parseArgs_success_empty: "fst (parseArgs args) = Inr cfg \<Longrightarrow> snd (parseArgs args) = []"
  by (auto simp: parseArgs_def split: prod.splits sum.splits if_splits)

lemma parseArgs_distinct_ids:
  "fst (parseArgs args) = Inr cfg \<Longrightarrow> distinct (map fst (canisterIdToPort cfg))"
  apply (auto simp: parseArgs_def parseCanisterIdToPort_def parseCanisterToPort_def split: prod.splits sum.splits if_splits)
  apply (metis parseCanisterToPortLoop_distinct distinct.simps(1) fst_conv list.simps(8))
  done

lemma main_distinct_ids:
  "main fs args = Proxying host bindings \<Longrightarrow> distinct (map fst bindings)"
  by (auto simp: main_def getConfig_def split: if_splits sum.splits option.splits
        dest!: parseArgs_distinct_ids dest: resolveNames_distinct)

lemma indexOf_None_iff: "indexOf xs x = None \<longleftrightarrow> x \<notin> set xs"
  by (induction xs) auto

lemma indexOf_append_first: "x \<notin> set pre \<Longrightarrow> indexOf (pre @ x # rest) x = Some (length pre)"
  by (induction pre) auto

lemma indexOf_nth: "indexOf xs x = Some i \<Longrightarrow> xs ! i = x"
  by (induction xs arbitrary: i) (auto split: if_splits)

lemma spliceJS_pair: "spliceJS (length pre) 2 (pre @ x # v # post) = ([x, v], pre @ post)"
  by (simp add: spliceJS_def)

lemma spliceJS_keeps:
  assumes "x \<in> set xs"
  shows "x \<in> set (fst (spliceJS i n xs)) \<or> x \<in> set (snd (spliceJS i n xs))"
proof -
  have "set xs = set (take i xs) \<union> set (drop i xs)"
    by (metis append_take_drop_id set_append)
  moreover have "set (drop i xs) = set (take n (drop i xs)) \<union> set (drop n (drop i xs))"
    by (metis append_take_drop_id set_append)
  moreover have "drop n (drop i xs) = drop (i + n) xs"
    by (simp add: add.commute)
  ultimately show ?thesis
    using assms by (auto simp: spliceJS_def)
qed

lemma spliceJS_first:
  "indexOf xs x = Some i \<Longrightarrow> length (fst (spliceJS i 2 xs)) = 2
   \<Longrightarrow> fst (spliceJS i 2 xs) = [x, xs ! Suc i]"
proof -
  assume a: "indexOf xs x = Some i" and b: "length (fst (spliceJS i 2 xs)) = 2"
  from a have i: "i < length xs" by (rule indexOf_less)
  from b i have j: "Suc i < length xs" by (auto simp: spliceJS_def)
  have "take 2 (drop i xs) = [xs ! i, xs ! Suc i]"
    using i j by (metis Cons_nth_drop_Suc One_nat_def Suc_1 take0 take_Suc_Cons)
  with a show ?thesis by (simp add: spliceJS_def indexOf_nth)
qed

lemma readOption_keeps:
  assumes "x \<in> set args" and "x \<noteq> flag" and "readOption flag args = (Inr v, args')"
  shows "x \<in> set args' \<or> v = Some x"
proof (cases "indexOf args flag")
  case None
  with assms show ?thesis by (simp add: readOption_def)
next
  case (Some i)
  with assms(3) have len: "length (fst (spliceJS i 2 args)) = 2"
    and v: "v = Some (fst (spliceJS i 2 args) ! 1)" and a: "args' = snd (spliceJS i 2 args)"
    by (auto simp: readOption_def Let_def split: if_splits)
  from spliceJS_first [OF Some len] have f: "fst (spliceJS i 2 args) = [flag, args ! Suc i]" .
  from spliceJS_keeps [OF assms(1), of i 2] assms(2) f v a show ?thesis by auto
qed

lemma parseCanisterToPortLoop_keeps:
  "x \<in> set args \<Longrightarrow> x \<noteq> param \<Longrightarrow> length (splitOn (ch CHR '':'') x) \<noteq> 2
   \<Longrightarrow> fst (parseCanisterToPortLoop param obj args) = Inr obj'
   \<Longrightarrow> x \<in> set (snd (parseCanisterToPortLoop param obj args))"
proof (induction obj args rule: parseCanisterToPortLoop_induct[where param = param])
  case (step obj args)
  show ?case
  proof (cases "indexOf args param")
    case None
    with step.prems show ?thesis by (simp add: parseCanisterToPortLoop_None)
  next
    case (Some i)
    from step.prems(4) Some have len: "length (fst (spliceJS i 2 args)) = 2"
      by (auto simp: parseCanisterToPortLoop_Some split: if_splits)
    from spliceJS_first [OF Some len] have f: "fst (spliceJS i 2 args) = [param, args ! Suc i]" .
    from step.prems(4) Some f have two: "length (splitOn (ch CHR '':'') (args ! Suc i)) = 2"
      by (auto simp: parseCanisterToPortLoop_Some split: if_splits)
    with step.prems(2,3) have "x \<notin> set (fst (spliceJS i 2 args))"
      using f by auto
    with spliceJS_keeps [OF step.prems(1), of i 2] have x: "x \<in> set (snd (spliceJS i 2 args))"
      by simp
    from step.prems(4) Some f two obtain port where
      p: "parseInt (splitOn (ch CHR '':'') (args ! Suc i) ! 1) = Some port"
      by (auto simp: parseCanisterToPortLoop_Some split: if_splits option.splits)
    have eq: "parseCanisterToPortLoop param obj args
          = parseCanisterToPortLoop param
              (setProp obj (splitOn (ch CHR '':'') (args ! Suc i) ! 0) port) (snd (spliceJS i 2 args))"
      using Some f two p by (simp add: parseCanisterToPortLoop_Some)
    from step.IH [OF Some x step.prems(2,3)] step.prems(4) eq show ?thesis
      by simp
  qed
qed

lemma sublist_joinWith: "t \<in> set xs \<Longrightarrow> sublist t (joinWith sep xs)"
proof (induction sep xs rule: joinWith.induct)
  case (3 sep x y ys)
  show ?case
  proof (cases "t = x")
    case True
    then show ?thesis by (simp add: sublist_append)
  next
    case False
    with 3 have "sublist t (joinWith sep (y # ys))" by simp
    then have "sublist t ((x @ sep) @ joinWith sep (y # ys))"
      by (simp only: sublist_append) blast
    then show ?thesis by simp
  qed
qed auto






























lemma getProp_Own: "getProp obj k = Own v \<longleftrightarrow> map_of obj k = Some v"
  by (auto simp: getProp_def split: option.splits)

lemma getProp_forIn: "getProp obj k = Own v \<Longrightarrow> (k, v) \<in> set (forIn obj)"
  by (auto simp: set_forIn getProp_Own dest: map_of_SomeD)


lemma resolveNames_step:
  "canisterIdOf (getProp t n) = Some cid \<Longrightarrow> \<not> alreadyForwardedTo (getProp ids cid)
   \<Longrightarrow> resolveNames t ((n, p) # rest) ids = resolveNames t rest (setProp ids cid p)"
  by simp



lemma resolveNames_untouched:
  "resolveNames t names ids = Inr res \<Longrightarrow> \<forall>(n, p) \<in> set names. canisterIdOf (getProp t n) \<noteq> Some k
   \<Longrightarrow> getProp res k = getProp ids k"
proof (induction t names ids rule: resolveNames.induct)
  case (1 t ids)
  then show ?case by simp
next
  case (2 t n p rest ids)
  from "2.prems"(2) have n: "canisterIdOf (getProp t n) \<noteq> Some k"
    and rest: "\<forall>(n, p) \<in> set rest. canisterIdOf (getProp t n) \<noteq> Some k"
    by auto
  from "2.prems"(1) obtain cid where cid: "canisterIdOf (getProp t n) = Some cid"
    and free: "\<not> alreadyForwardedTo (getProp ids cid)"
    and r: "resolveNames t rest (setProp ids cid p) = Inr res"
    by (auto split: option.splits if_splits)
  with n have "cid \<noteq> k" by simp
  from "2.IH" [OF cid free r rest] have "getProp res k = getProp (setProp ids cid p) k" .
  with \<open>cid \<noteq> k\<close> show ?case by (simp add: getProp_setProp)
qed

lemma readCanisterIds_truthy:
  "readCanisterIds values obj = Some obj' \<Longrightarrow> \<forall>p \<in> set obj. snd p \<noteq> []
   \<Longrightarrow> \<forall>p \<in> set obj'. snd p \<noteq> []"
proof (induction "values" obj rule: readCanisterIds.induct)
  case (4 canisterName localCanisterId "values" obj)
  show ?case
  proof (cases "localCanisterId = []")
    case True
    with 4 show ?thesis by simp
  next
    case False
    have "set (AList.update canisterName localCanisterId obj)
            \<subseteq> insert (canisterName, localCanisterId) (set obj)"
      by (induction obj) auto
    then have "set (setProp obj canisterName localCanisterId)
            \<subseteq> insert (canisterName, localCanisterId) (set obj)"
      by (auto simp: setProp_def)
    with False "4.prems"(2) have "\<forall>p \<in> set (setProp obj canisterName localCanisterId). snd p \<noteq> []"
      by auto
    with 4 False show ?thesis by simp
  qed
qed auto

lemma readCanisterIds_no_proto:
  "readCanisterIds values obj = Some obj' \<Longrightarrow> map_of obj (str ''__proto__'') = None
   \<Longrightarrow> map_of obj' (str ''__proto__'') = None"
  by (induction "values" obj rule: readCanisterIds.induct)
     (auto simp: map_of_setProp split: if_splits)

lemma loadCanisterIds_Own:
  assumes "loadCanisterIds fs idsFile [] = Inr t" and "getProp t n = Own cid"
  shows "cid \<noteq> []" and "n \<noteq> str ''__proto__''"
proof -
  from assms(1) have "\<forall>p \<in> set t. snd p \<noteq> []"
    by (auto simp: loadCanisterIds_def split: option.splits if_splits
          dest!: readCanisterIds_truthy)
  moreover from assms(2) have "(n, cid) \<in> set t"
    by (auto simp: getProp_Own dest: map_of_SomeD)
  ultimately show "cid \<noteq> []" by auto
  from assms(1) have "map_of t (str ''__proto__'') = None"
    by (auto simp: loadCanisterIds_def split: option.splits if_splits
          dest!: readCanisterIds_no_proto)
  with assms(2) show "n \<noteq> str ''__proto__''"
    by (auto simp: getProp_Own)
qed








lemma spliceJS_Cons:
  "spliceJS (Suc i) n (x # xs) = (fst (spliceJS i n xs), x # snd (spliceJS i n xs))"
  by (simp add: spliceJS_def)

lemma readOption_Cons:
  "token \<noteq> flag \<Longrightarrow>
   readOption flag (token # rest) = (fst (readOption flag rest), token # snd (readOption flag rest))"
  by (cases "indexOf rest flag") (simp_all add: readOption_def spliceJS_Cons Let_def)

lemma readOption_scanOption:
  "snd (readOption flag args) = snd (scanOption flag args)
   \<and> ((\<exists>v. fst (readOption flag args) = Inr v) \<longleftrightarrow> fst (scanOption flag args))"
proof (induction args)
  case Nil
  show ?case by (simp add: readOption_def)
next
  case (Cons token rest)
  show ?case
  proof (cases "token = flag")
    case True
    then show ?thesis
      by (cases rest) (simp_all add: readOption_def spliceJS_def)
  next
    case False
    with Cons show ?thesis by (simp add: readOption_Cons)
  qed
qed

lemma parseCanisterToPortLoop_Cons:
  "token \<noteq> param \<Longrightarrow>
   parseCanisterToPortLoop param obj (token # rest)
     = (fst (parseCanisterToPortLoop param obj rest),
        token # snd (parseCanisterToPortLoop param obj rest))"
proof (induction obj rest rule: parseCanisterToPortLoop_induct[where param = param])
  case (step obj rest)
  show ?case
  proof (cases "indexOf rest param")
    case None
    with step.prems have "indexOf (token # rest) param = None" by simp
    with None show ?thesis by (simp add: parseCanisterToPortLoop_None)
  next
    case (Some i)
    with step.prems have s: "indexOf (token # rest) param = Some (Suc i)" by simp
    show ?thesis
      unfolding parseCanisterToPortLoop_Some [OF s] parseCanisterToPortLoop_Some [OF Some]
      using step.IH [OF Some step.prems]
      by (simp add: spliceJS_Cons split: option.splits)
  qed
qed

lemma parseCanisterToPortLoop_head:
  "parseCanisterToPortLoop param obj (param # v # rest)
     = (case bindingOf v of
          Inl err \<Rightarrow> (Inl err, rest)
        | Inr (canister, port) \<Rightarrow> parseCanisterToPortLoop param (setProp obj canister port) rest)"
proof -
  have s: "indexOf (param # v # rest) param = Some 0" by simp
  show ?thesis
    unfolding parseCanisterToPortLoop_Some [OF s]
    by (simp add: spliceJS_def bindingOf_def split: option.splits)
qed

lemma parseCanisterToPortLoop_last:
  "parseCanisterToPortLoop param obj [param] = (Inl (str ''No value for '' @ param), [])"
proof -
  have s: "indexOf [param] param = Some 0" by simp
  show ?thesis
    unfolding parseCanisterToPortLoop_Some [OF s] by (simp add: spliceJS_def)
qed

lemma parseCanisterToPortLoop_scanBindings:
  "snd (parseCanisterToPortLoop param obj args) = snd (scanBindings param args)
   \<and> ((\<exists>obj'. fst (parseCanisterToPortLoop param obj args) = Inr obj')
        \<longleftrightarrow> fst (scanBindings param args))"
proof (induction param args arbitrary: obj rule: scanBindings.induct)
  case (1 flag)
  show ?case by (simp add: parseCanisterToPortLoop_None)
next
  case (2 flag token)
  show ?case
  proof (cases "token = flag")
    case True
    then show ?thesis by (simp add: parseCanisterToPortLoop_last)
  next
    case False
    then show ?thesis by (simp add: parseCanisterToPortLoop_None)
  qed
next
  case (3 flag token v rest)
  show ?case
  proof (cases "token = flag")
    case True
    show ?thesis
    proof (cases "bindingOf v")
      case (Inl err)
      with True show ?thesis by (simp add: parseCanisterToPortLoop_head)
    next
      case (Inr binding)
      obtain canister port where b: "binding = (canister, port)" by (cases binding)
      from "3.IH"(1) [OF True Inr, of "setProp obj canister port"] True Inr b
      show ?thesis by (simp add: parseCanisterToPortLoop_head)
    qed
  next
    case False
    from "3.IH"(2) [OF False, of obj] False show ?thesis
      by (simp add: parseCanisterToPortLoop_Cons)
  qed
qed

lemma parseArgs_remainingArgs:
  "snd (parseArgs args) = snd (remainingArgs args)
   \<and> ((\<exists>cfg. fst (parseArgs args) = Inr cfg) \<longleftrightarrow> fst (remainingArgs args))"
proof -
  let ?s1 = "scanOption (str ''--replica-host'') args"
  let ?s2 = "scanOption (str ''--canister-ids-file'') (snd ?s1)"
  let ?s3 = "scanBindings (str ''--by-id'') (snd ?s2)"
  let ?s4 = "scanBindings (str ''--by-name'') (snd ?s3)"
  obtain r1 a1 where e1: "readOption (str ''--replica-host'') args = (r1, a1)" by force
  obtain r2 a2 where e2: "readOption (str ''--canister-ids-file'') a1 = (r2, a2)" by force
  obtain r3 a3 where e3: "parseCanisterToPortLoop (str ''--by-id'') [] a2 = (r3, a3)" by force
  obtain r4 a4 where e4: "parseCanisterToPortLoop (str ''--by-name'') [] a3 = (r4, a4)" by force
  from readOption_scanOption [of "str ''--replica-host''" args] e1
  have f1: "a1 = snd ?s1" "(\<exists>v. r1 = Inr v) \<longleftrightarrow> fst ?s1" by simp_all
  from readOption_scanOption [of "str ''--canister-ids-file''" a1] e2 f1(1)
  have f2: "a2 = snd ?s2" "(\<exists>v. r2 = Inr v) \<longleftrightarrow> fst ?s2" by simp_all
  from parseCanisterToPortLoop_scanBindings [of "str ''--by-id''" "[]" a2] e3 f2(1)
  have f3: "a3 = snd ?s3" "(\<exists>v. r3 = Inr v) \<longleftrightarrow> fst ?s3" by simp_all
  from parseCanisterToPortLoop_scanBindings [of "str ''--by-name''" "[]" a3] e4 f3(1)
  have f4: "a4 = snd ?s4" "(\<exists>v. r4 = Inr v) \<longleftrightarrow> fst ?s4" by simp_all
  have p: "parseArgs args =
     (case r1 of Inl err \<Rightarrow> (Inl err, a1) | Inr h \<Rightarrow>
      (case r2 of Inl err \<Rightarrow> (Inl err, a2) | Inr f \<Rightarrow>
       (case r3 of Inl err \<Rightarrow> (Inl err, a3) | Inr ids \<Rightarrow>
        (case r4 of Inl err \<Rightarrow> (Inl err, a4) | Inr names \<Rightarrow>
           if length a4 \<noteq> 0 then (Inl (unknownArguments a4), a4)
           else (Inr \<lparr> replicaHost = h, canisterIdToPort = ids, canisterNameToPort = names,
                        canisterNameToId = [], canisterIdsFile = f \<rparr>, a4)))))"
    using e1 e2 e3 e4
    by (simp add: parseArgs_def parseCanisterIdToPort_def parseCanisterNameToPort_def
          parseCanisterToPort_def split: sum.splits)
  show ?thesis
    unfolding p remainingArgs_def Let_def
    using f1 f2 f3 f4
    by (cases r1; cases r2; cases r3; cases r4) auto
qed


lemma getProp_proto: "getProp obj (str ''__proto__'') \<noteq> Undefined"
  by (simp add: getProp_def prototypeKeys_def split: option.splits)

lemma alreadyForwardedTo_proto:
  "\<not> alreadyForwardedTo (getProp obj c) \<Longrightarrow> map_of obj (str ''__proto__'') = None
   \<Longrightarrow> c \<noteq> str ''__proto__''"
  by (auto simp: getProp_def prototypeKeys_def)

lemma setProp_proto: "map_of (setProp obj k v) (str ''__proto__'') = map_of obj (str ''__proto__'')"
  by (simp add: map_of_setProp)

lemma parseCanisterToPortLoop_proto:
  "fst (parseCanisterToPortLoop param obj args) = Inr obj'
   \<Longrightarrow> map_of obj' (str ''__proto__'') = map_of obj (str ''__proto__'')"
proof (induction obj args rule: parseCanisterToPortLoop_induct[where param = param])
  case (step obj args)
  show ?case
  proof (cases "indexOf args param")
    case None
    with step.prems show ?thesis by (simp add: parseCanisterToPortLoop_None)
  next
    case (Some i)
    have keep: "map_of (setProp obj c p) (str ''__proto__'') = map_of obj (str ''__proto__'')"
      for c p by (rule setProp_proto)
    from step.prems step.IH [OF Some] Some keep show ?thesis
      by (auto simp: parseCanisterToPortLoop_Some split: if_splits option.splits)
  qed
qed

lemma parseArgs_stages:
  assumes "readOption (str ''--replica-host'') args = (r1, a1)"
    and "readOption (str ''--canister-ids-file'') a1 = (r2, a2)"
    and "parseCanisterToPortLoop (str ''--by-id'') [] a2 = (r3, a3)"
    and "parseCanisterToPortLoop (str ''--by-name'') [] a3 = (r4, a4)"
  shows "parseArgs args =
     (case r1 of Inl err \<Rightarrow> (Inl err, a1) | Inr h \<Rightarrow>
      (case r2 of Inl err \<Rightarrow> (Inl err, a2) | Inr f \<Rightarrow>
       (case r3 of Inl err \<Rightarrow> (Inl err, a3) | Inr ids \<Rightarrow>
        (case r4 of Inl err \<Rightarrow> (Inl err, a4) | Inr names \<Rightarrow>
           if length a4 \<noteq> 0 then (Inl (unknownArguments a4), a4)
           else (Inr \<lparr> replicaHost = h, canisterIdToPort = ids, canisterNameToPort = names,
                        canisterNameToId = [], canisterIdsFile = f \<rparr>, a4)))))"
  using assms
  by (simp add: parseArgs_def parseCanisterIdToPort_def parseCanisterNameToPort_def
        parseCanisterToPort_def split: sum.splits)

lemma parseArgs_proto:
  assumes "fst (parseArgs args) = Inr cfg"
  shows "map_of (canisterIdToPort cfg) (str ''__proto__'') = None"
    and "map_of (canisterNameToPort cfg) (str ''__proto__'') = None"
    and "canisterNameToId cfg = []"
proof -
  obtain r1 a1 where e1: "readOption (str ''--replica-host'') args = (r1, a1)" by force
  obtain r2 a2 where e2: "readOption (str ''--canister-ids-file'') a1 = (r2, a2)" by force
  obtain r3 a3 where e3: "parseCanisterToPortLoop (str ''--by-id'') [] a2 = (r3, a3)" by force
  obtain r4 a4 where e4: "parseCanisterToPortLoop (str ''--by-name'') [] a3 = (r4, a4)" by force
  from assms have "r3 = Inr (canisterIdToPort cfg) \<and> r4 = Inr (canisterNameToPort cfg)
      \<and> canisterNameToId cfg = []"
    unfolding parseArgs_stages [OF e1 e2 e3 e4]
    by (cases r1; cases r2; cases r3; cases r4) (auto split: if_splits)
  with e3 e4 have i: "fst (parseCanisterToPortLoop (str ''--by-id'') [] a2) = Inr (canisterIdToPort cfg)"
    and n: "fst (parseCanisterToPortLoop (str ''--by-name'') [] a3) = Inr (canisterNameToPort cfg)"
    and t: "canisterNameToId cfg = []"
    by simp_all
  from parseCanisterToPortLoop_proto [OF i]
  show "map_of (canisterIdToPort cfg) (str ''__proto__'') = None" by simp
  from parseCanisterToPortLoop_proto [OF n]
  show "map_of (canisterNameToPort cfg) (str ''__proto__'') = None" by simp
  from t show "canisterNameToId cfg = []" .
qed

text \<open>
  Names that resolve to identifiers different from one another, none of them forwarded
  yet, are all bound by the loop.
\<close>

lemma resolveNames_apart:
  assumes "\<forall>(n, p) \<in> set names. \<exists>c. canisterIdOf (getProp t n) = Some c
              \<and> \<not> alreadyForwardedTo (getProp ids c)"
    and "distinct (map fst names)"
    and "inj_on (\<lambda>n. canisterIdOf (getProp t n)) (fst ` set names)"
    and "map_of ids (str ''__proto__'') = None"
  shows "\<exists>res. resolveNames t names ids = Inr res
           \<and> (\<forall>(n, p) \<in> set names. \<forall>c. canisterIdOf (getProp t n) = Some c
                  \<longrightarrow> getProp res c = Own p)"
  using assms
proof (induction names arbitrary: ids)
  case Nil
  then show ?case by simp
next
  case (Cons np rest)
  obtain n p where np: "np = (n, p)" by (cases np)
  from Cons.prems(1) np obtain c where c: "canisterIdOf (getProp t n) = Some c"
    and free: "\<not> alreadyForwardedTo (getProp ids c)"
    by auto
  from alreadyForwardedTo_proto [OF free Cons.prems(4)] have cproto: "c \<noteq> str ''__proto__''" .
  have other: "canisterIdOf (getProp t n') \<noteq> Some c" if "(n', p') \<in> set rest" for n' p'
  proof
    assume e: "canisterIdOf (getProp t n') = Some c"
    from that have in1: "n' \<in> fst ` set (np # rest)" by force
    have in2: "n \<in> fst ` set (np # rest)" using np by simp
    from e c have "canisterIdOf (getProp t n') = canisterIdOf (getProp t n)" by simp
    from inj_onD [OF Cons.prems(3) this in1 in2] have "n' = n" .
    with that Cons.prems(2) np show False by force
  qed
  have h1: "\<forall>(n', p') \<in> set rest. \<exists>c'. canisterIdOf (getProp t n') = Some c'
              \<and> \<not> alreadyForwardedTo (getProp (setProp ids c p) c')"
  proof (clarify)
    fix n' p' assume m: "(n', p') \<in> set rest"
    with Cons.prems(1) obtain c' where c': "canisterIdOf (getProp t n') = Some c'"
      and f': "\<not> alreadyForwardedTo (getProp ids c')"
      by auto
    from other [OF m] c' have "c' \<noteq> c" by auto
    with c' f' show "\<exists>c'. canisterIdOf (getProp t n') = Some c'
              \<and> \<not> alreadyForwardedTo (getProp (setProp ids c p) c')"
      by (simp add: getProp_setProp)
  qed
  have h2: "distinct (map fst rest)" using Cons.prems(2) by simp
  have h3: "inj_on (\<lambda>n. canisterIdOf (getProp t n)) (fst ` set rest)"
    using Cons.prems(3) by (auto intro: inj_on_subset)
  have h4: "map_of (setProp ids c p) (str ''__proto__'') = None"
    using Cons.prems(4) setProp_proto [of ids c p] by simp
  from Cons.IH [OF h1 h2 h3 h4] obtain res
    where res: "resolveNames t rest (setProp ids c p) = Inr res"
      and bound: "\<forall>(n, p) \<in> set rest. \<forall>c. canisterIdOf (getProp t n) = Some c
                  \<longrightarrow> getProp res c = Own p"
    by blast
  have "\<forall>(n', p') \<in> set rest. canisterIdOf (getProp t n') \<noteq> Some c"
    using other by auto
  from resolveNames_untouched [OF res this] cproto have "getProp res c = Own p"
    by (simp add: getProp_setProp)
  moreover have "resolveNames t (np # rest) ids = Inr res"
    using np c free res by simp
  ultimately show ?case
    using bound np c by auto
qed

text \<open>
  A second \<^verbatim>\<open>--replica-host\<close> behind the first one and its value stays in the array unless
  it is read as the path of the canister ids file.
\<close>

lemma replica_host_behind_first:
  assumes "(str ''--replica-host'') \<notin> set pre" and "(str ''--replica-host'') \<in> set post"
  shows "(\<exists>message. fst (parseArgs (pre @ (str ''--replica-host'') # url # post)) = Inl message)
       \<or> (\<exists>cfg. fst (parseArgs (pre @ (str ''--replica-host'') # url # post)) = Inr cfg
              \<and> replicaHost cfg = Some url \<and> canisterIdsFile cfg = Some (str ''--replica-host''))"
proof -
  let ?flag = "(str ''--replica-host'')"
  let ?args = "pre @ ?flag # url # post"
  have one: "length (splitOn (ch CHR '':'') ?flag) \<noteq> 2" by simp
  have a1: "readOption ?flag ?args = (Inr (Some url), pre @ post)"
    using assms(1) by (simp add: readOption_def indexOf_append_first spliceJS_pair)
  have in1: "?flag \<in> set (pre @ post)" using assms(2) by simp
  obtain r2 args2 where a2: "readOption (str ''--canister-ids-file'') (pre @ post) = (r2, args2)" by force
  obtain r3 args3 where a3: "parseCanisterIdToPort args2 = (r3, args3)" by force
  obtain r4 args4 where a4: "parseCanisterNameToPort args3 = (r4, args4)" by force
  show ?thesis
  proof (cases "\<exists>message. fst (parseArgs ?args) = Inl message")
    case True
    then show ?thesis by blast
  next
    case False
    then obtain cfg where cfg: "fst (parseArgs ?args) = Inr cfg"
      by (cases "fst (parseArgs ?args)") auto
    from cfg a1 a2 a3 a4 obtain idsFile ids names where
      r: "r2 = Inr idsFile" "r3 = Inr ids" "r4 = Inr names" and empty: "args4 = []"
      and c: "replicaHost cfg = Some url" "canisterIdsFile cfg = idsFile"
      by (auto simp: parseArgs_def split: sum.splits if_splits)
    have "idsFile = Some ?flag"
    proof (rule ccontr)
      assume n: "idsFile \<noteq> Some ?flag"
      from readOption_keeps [OF in1 _ a2 [unfolded r]] n have in2: "?flag \<in> set args2" by auto
      from parseCanisterToPortLoop_keeps [OF in2 _ one, of "(str ''--by-id'')" "[]" ids] a3 r
      have in3: "?flag \<in> set args3"
        by (simp add: parseCanisterIdToPort_def parseCanisterToPort_def)
      from parseCanisterToPortLoop_keeps [OF in3 _ one, of "(str ''--by-name'')" "[]" names] a4 r
      have "?flag \<in> set args4"
        by (simp add: parseCanisterNameToPort_def parseCanisterToPort_def)
      with empty show False by simp
    qed
    with cfg c show ?thesis by blast
  qed
qed

lemma count_list_two:
  "2 \<le> count_list xs x \<Longrightarrow> \<exists>pre post. xs = pre @ x # post \<and> x \<notin> set pre \<and> x \<in> set post"
proof (induction xs)
  case Nil
  then show ?case by simp
next
  case (Cons y ys)
  show ?case
  proof (cases "y = x")
    case True
    with Cons.prems have "1 \<le> count_list ys x" by simp
    then have "x \<in> set ys" by (metis count_list_0_iff not_one_le_zero)
    with True have "y # ys = [] @ x # ys \<and> x \<notin> set [] \<and> x \<in> set ys" by simp
    then show ?thesis by blast
  next
    case False
    with Cons.prems have "2 \<le> count_list ys x" by simp
    from Cons.IH [OF this] obtain pre post where "ys = pre @ x # post" "x \<notin> set pre" "x \<in> set post"
      by blast
    with False have "y # ys = (y # pre) @ x # post \<and> x \<notin> set (y # pre) \<and> x \<in> set post" by simp
    then show ?thesis by blast
  qed
qed

lemma parseArgs_distinct_names:
  assumes "fst (parseArgs args) = Inr cfg"
  shows "distinct (map fst (canisterNameToPort cfg))"
proof -
  obtain r1 a1 where e1: "readOption (str ''--replica-host'') args = (r1, a1)" by force
  obtain r2 a2 where e2: "readOption (str ''--canister-ids-file'') a1 = (r2, a2)" by force
  obtain r3 a3 where e3: "parseCanisterToPortLoop (str ''--by-id'') [] a2 = (r3, a3)" by force
  obtain r4 a4 where e4: "parseCanisterToPortLoop (str ''--by-name'') [] a3 = (r4, a4)" by force
  from assms have "r4 = Inr (canisterNameToPort cfg)"
    unfolding parseArgs_stages [OF e1 e2 e3 e4]
    by (cases r1; cases r2; cases r3; cases r4) (auto split: if_splits)
  with e4 have "fst (parseCanisterToPortLoop (str ''--by-name'') [] a3) = Inr (canisterNameToPort cfg)"
    by simp
  from parseCanisterToPortLoop_distinct [OF this] show ?thesis by simp
qed

section \<open>C1: the path rewrite\<close>

lemma pathRewrite_no_query:
  "ch CHR ''?'' \<notin> set path \<Longrightarrow> pathRewrite cid path = path @ str ''?canisterId='' @ cid"
  by (simp add: pathRewrite_def splitOn_no_sep)

lemma pathRewrite_single_query:
  assumes "ch CHR ''?'' \<notin> set path" and "ch CHR ''?'' \<notin> set query" and "query \<noteq> []"
  shows "pathRewrite cid (path @ str ''?'' @ query)
           = path @ str ''?'' @ query @ str ''&canisterId='' @ cid"
  using assms by (simp add: pathRewrite_def splitOn_first_sep splitOn_no_sep)

text \<open>
  C1.  The claim: the target is split on the first \<^verbatim>\<open>?\<close> and the query string behind it
  is preserved verbatim.  The code splits on every \<^verbatim>\<open>?\<close> and keeps two segments only:
  for the target \<^verbatim>\<open>/a?x=1?y=2\<close> the query string is \<^verbatim>\<open>x=1?y=2\<close>, and the rewrite
  returns \<^verbatim>\<open>/a?x=1&canisterId=abc\<close>, not \<^verbatim>\<open>/a?x=1?y=2&canisterId=abc\<close>.
\<close>

theorem pathRewrite_second_question_mark:
  "pathRewrite (str ''abc'') (str ''/a?x=1?y=2'') = str ''/a?x=1&canisterId=abc''
   \<and> pathRewrite (str ''abc'') (str ''/a?x=1?y=2'') \<noteq> str ''/a?x=1?y=2&canisterId=abc''"
  by (simp add: pathRewrite_def)

section \<open>C2: a name-keyed flag and the identifier-keyed flag it resolves to\<close>




section \<open>C3: the resolved binding set\<close>

text \<open>
  C3, as claimed: after a successful start-up no two bindings share a port and no two share
  an identifier.  Nothing in the code compares ports: two \<^verbatim>\<open>--by-id\<close> flags with the
  same port start two proxies on that port.
\<close>

theorem shared_port_counterexample:
  "main exampleFiles
     [str ''--replica-host'', str ''http://h'', str ''--by-id'', str ''a:80'',
      str ''--by-id'', str ''b:80'']
     = Proxying (str ''http://h'') [(str ''a'', Finite 80), (str ''b'', Finite 80)]
   \<and> \<not> distinct (map snd [(str ''a'', Finite 80), (str ''b'', Finite 80)])"
  by code_simp

text \<open>
  C3, amended: after a successful start-up no two bindings of the final
  \<^verbatim>\<open>canisterIdToPort\<close> share an identifier.  (Two bindings may share a port.)
\<close>

theorem resolved_identifiers_distinct:
  "main fs args = Proxying host bindings \<Longrightarrow> distinct (map fst bindings)"
  by (rule main_distinct_ids)

theorem resolved_identifiers_distinct_witness:
  "main exampleFiles
     [str ''--replica-host'', str ''http://h'', str ''--by-id'', str ''a:80'',
      str ''--by-id'', str ''b:80'']
     = Proxying (str ''http://h'') [(str ''a'', Finite 80), (str ''b'', Finite 80)]
   \<and> distinct (map fst [(str ''a'', Finite 80), (str ''b'', Finite 80)])"
proof -
  have run: "main exampleFiles
     [str ''--replica-host'', str ''http://h'', str ''--by-id'', str ''a:80'',
      str ''--by-id'', str ''b:80'']
     = Proxying (str ''http://h'') [(str ''a'', Finite 80), (str ''b'', Finite 80)]"
    by code_simp
  from resolved_identifiers_distinct [OF run] run show ?thesis by simp
qed

section \<open>C4: a name that resolves to an identifier already bound\<close>

text \<open>
  A name whose identifier is bound to a port other than zero is rejected, with a message
  made of the name, its port, the identifier and the port it is bound to.
\<close>

lemma nonzero_port_conflict_reported:
  assumes "canisterIdOf (getProp canisterNameToId' canisterName) = Some canisterId"
    and "getProp canisterIdToPort' canisterId = Own existingPort"
    and "truthyNumber existingPort"
  shows "resolveNames canisterNameToId' ((canisterName, canisterPort) # rest) canisterIdToPort'
           = Inl (alreadyForwarded canisterName canisterPort canisterId (Own existingPort))"
  using assms by simp

text \<open>
  C4.  The claim: a name whose identifier is already in the identifier-keyed binding set
  makes resolution fail.  With \<^verbatim>\<open>--by-id xyz:0 --by-name foo:9090\<close> and \<^verbatim>\<open>foo\<close> resolving
  to \<^verbatim>\<open>xyz\<close>, the identifier is present, but the code reports nothing and starts the
  proxy of \<^verbatim>\<open>xyz\<close> on port 9090.
\<close>

theorem port_zero_conflict_not_reported:
  "main exampleFiles
     [str ''--replica-host'', str ''http://h'', str ''--canister-ids-file'', str ''ids.json'',
      str ''--by-id'', str ''xyz:0'', str ''--by-name'', str ''foo:9090'']
   = Proxying (str ''http://h'') [(str ''xyz'', Finite 9090)]"
  by code_simp

section \<open>C5: a name whose identifier is bound to port 0\<close>

text \<open>
  C5.  The arguments parse, no \<^verbatim>\<open>--help\<close> is among them, a replica host is given and the
  lookup table is read.  The name \<^verbatim>\<open>N\<close> is to be proxied to port \<^verbatim>\<open>P\<close>, the table resolves
  it to \<^verbatim>\<open>X\<close>, and an identifier-keyed flag binds \<^verbatim>\<open>X\<close> to port 0.  Every other name
  resolves to an identifier that is not forwarded yet (the record reads \<^verbatim>\<open>undefined\<close> or
  0 for it), and no two names resolve to the same identifier.  Then no error is raised:
  start-up goes through to the proxies, and the final record binds \<^verbatim>\<open>X\<close> to \<^verbatim>\<open>P\<close>, the port
  of the name, in place of 0.
\<close>

theorem falsy_port_overwritten:
  assumes parsed: "fst (getConfig args) = Inr cfg"
    and nohelp: "str ''--help'' \<notin> set args"
    and host: "replicaHost cfg = Some host" "host \<noteq> []"
    and table: "loadCanisterIds fs (canisterIdsFile cfg) [] = Inr nameToId"
    and name: "getProp (canisterNameToPort cfg) canisterName = Own canisterPort"
    and resolves: "getProp nameToId canisterName = Own canisterId"
    and zero: "getProp (canisterIdToPort cfg) canisterId = Own (Finite 0)"
    and others:
      "\<forall>(n, p) \<in> set (canisterNameToPort cfg).
         n \<noteq> canisterName \<longrightarrow>
           (\<exists>c. canisterIdOf (getProp nameToId n) = Some c
                \<and> \<not> alreadyForwardedTo (getProp (canisterIdToPort cfg) c))"
    and apart:
      "inj_on (\<lambda>n. canisterIdOf (getProp nameToId n)) (fst ` set (canisterNameToPort cfg))"
  shows "\<exists>bindings. main fs args = Proxying host bindings
           \<and> getProp bindings canisterId = Own canisterPort"
proof -
  let ?ids = "canisterIdToPort cfg" and ?names = "canisterNameToPort cfg"
  from parsed have p: "fst (parseArgs args) = Inr cfg" by (simp add: getConfig_def)
  note proto = parseArgs_proto [OF p]
  from loadCanisterIds_Own [OF table resolves] resolves
  have id: "canisterIdOf (getProp nameToId canisterName) = Some canisterId" by simp
  have h1: "\<forall>(n, p) \<in> set (forIn ?names). \<exists>c. canisterIdOf (getProp nameToId n) = Some c
              \<and> \<not> alreadyForwardedTo (getProp ?ids c)"
  proof (clarify)
    fix n p assume "(n, p) \<in> set (forIn ?names)"
    then have m: "(n, p) \<in> set ?names" by (simp add: set_forIn)
    show "\<exists>c. canisterIdOf (getProp nameToId n) = Some c
              \<and> \<not> alreadyForwardedTo (getProp ?ids c)"
    proof (cases "n = canisterName")
      case True
      with id zero show ?thesis by simp
    next
      case False
      with others m show ?thesis by auto
    qed
  qed
  from distinct_forIn [OF parseArgs_distinct_names [OF p]] have h2: "distinct (map fst (forIn ?names))" .
  have h3: "inj_on (\<lambda>n. canisterIdOf (getProp nameToId n)) (fst ` set (forIn ?names))"
    using apart by (simp add: set_forIn)
  from resolveNames_apart [OF h1 h2 h3 proto(1)] obtain res
    where res: "resolveNames nameToId (forIn ?names) ?ids = Inr res"
      and bound: "\<forall>(n, p) \<in> set (forIn ?names). \<forall>c. canisterIdOf (getProp nameToId n) = Some c
                    \<longrightarrow> getProp res c = Own p"
    by blast
  from getProp_forIn [OF name] bound id have "getProp res canisterId = Own canisterPort"
    by auto
  moreover from zero have "?ids \<noteq> []" by (auto simp: getProp_Own)
  then have "main fs args = Proxying host res"
    unfolding main_def
    using nohelp parsed host table res proto(3)
    by (simp add: indexOf_None_iff length_forIn del: resolveNames.simps)
  ultimately show ?thesis by blast
qed

theorem falsy_port_overwritten_witness:
  "fst (getConfig [str ''--replica-host'', str ''http://h'', str ''--canister-ids-file'',
                   str ''ids.json'', str ''--by-id'', str ''xyz:0'', str ''--by-name'',
                   str ''foo:9090''])
     = Inr \<lparr> replicaHost = Some (str ''http://h''),
             canisterIdToPort = [(str ''xyz'', Finite 0)],
             canisterNameToPort = [(str ''foo'', Finite 9090)], canisterNameToId = [],
             canisterIdsFile = Some (str ''ids.json'') \<rparr>
   \<and> loadCanisterIds exampleFiles (Some (str ''ids.json'')) [] = Inr [(str ''foo'', str ''xyz'')]
   \<and> getProp [(str ''foo'', Finite 9090)] (str ''foo'') = Own (Finite 9090)
   \<and> getProp [(str ''foo'', str ''xyz'')] (str ''foo'') = Own (str ''xyz'')
   \<and> getProp [(str ''xyz'', Finite 0)] (str ''xyz'') = Own (Finite 0)
   \<and> main exampleFiles
         [str ''--replica-host'', str ''http://h'', str ''--canister-ids-file'',
          str ''ids.json'', str ''--by-id'', str ''xyz:0'', str ''--by-name'',
          str ''foo:9090'']
       = Proxying (str ''http://h'') [(str ''xyz'', Finite 9090)]
   \<and> getProp [(str ''xyz'', Finite 9090)] (str ''xyz'') = Own (Finite 9090)"
proof -
  let ?args = "[str ''--replica-host'', str ''http://h'', str ''--canister-ids-file'',
                str ''ids.json'', str ''--by-id'', str ''xyz:0'', str ''--by-name'',
                str ''foo:9090'']"
  let ?cfg = "\<lparr> replicaHost = Some (str ''http://h''),
               canisterIdToPort = [(str ''xyz'', Finite 0)],
               canisterNameToPort = [(str ''foo'', Finite 9090)], canisterNameToId = [],
               canisterIdsFile = Some (str ''ids.json'') \<rparr>"
  have h1: "fst (getConfig ?args) = Inr ?cfg" by code_simp
  have h2: "str ''--help'' \<notin> set ?args" by simp
  have h3: "replicaHost ?cfg = Some (str ''http://h'')" by simp
  have h4: "str ''http://h'' \<noteq> []" by simp
  have h5: "loadCanisterIds exampleFiles (canisterIdsFile ?cfg) [] = Inr [(str ''foo'', str ''xyz'')]"
    by code_simp
  have h6: "getProp (canisterNameToPort ?cfg) (str ''foo'') = Own (Finite 9090)"
    by (simp add: getProp_def)
  have h7: "getProp [(str ''foo'', str ''xyz'')] (str ''foo'') = Own (str ''xyz'')"
    by (simp add: getProp_def)
  have h8: "getProp (canisterIdToPort ?cfg) (str ''xyz'') = Own (Finite 0)"
    by (simp add: getProp_def)
  have h9: "\<forall>(n, p) \<in> set (canisterNameToPort ?cfg).
         n \<noteq> str ''foo'' \<longrightarrow>
           (\<exists>c. canisterIdOf (getProp [(str ''foo'', str ''xyz'')] n) = Some c
                \<and> \<not> alreadyForwardedTo (getProp (canisterIdToPort ?cfg) c))"
    by simp
  have h10: "inj_on (\<lambda>n. canisterIdOf (getProp [(str ''foo'', str ''xyz'')] n))
               (fst ` set (canisterNameToPort ?cfg))"
    by simp
  have run: "main exampleFiles ?args = Proxying (str ''http://h'') [(str ''xyz'', Finite 9090)]"
    by code_simp
  from falsy_port_overwritten [OF h1 h2 h3 h4 h5 h6 h7 h8 h9 h10]
  have "getProp [(str ''xyz'', Finite 9090)] (str ''xyz'') = Own (Finite 9090)"
    unfolding run by simp
  with h1 h5 h6 h7 h8 run show ?thesis by simp
qed

section \<open>C6: the value of a \<^verbatim>\<open>--by-id\<close> or \<^verbatim>\<open>--by-name\<close> flag\<close>




section \<open>C7: leftover tokens\<close>

text \<open>
  C7.  When the two options and the two kinds of mappings have been read without an error
  and tokens are left in the array, \<^verbatim>\<open>parseArgs\<close> returns the error string built from the
  number of leftover tokens and the leftover tokens joined by commas; the number and every
  leftover token occur in it as they are.
\<close>

theorem leftover_tokens_rejected:
  assumes "readOption (str ''--replica-host'') args = (Inr host, args1)"
    and "readOption (str ''--canister-ids-file'') args1 = (Inr idsFile, args2)"
    and "parseCanisterIdToPort args2 = (Inr ids, args3)"
    and "parseCanisterNameToPort args3 = (Inr names, leftover)"
    and "leftover \<noteq> []"
  shows "\<exists>message. fst (parseArgs args) = Inl message
           \<and> message = str ''Error: Don'' @ [0x27] @ str ''t know what to do with ''
                 @ showNat (length leftover) @ str '' argument(s): ''
                 @ joinWith (str '','') leftover
           \<and> sublist (showNat (length leftover)) message
           \<and> (\<forall>token \<in> set leftover. sublist token message)"
proof -
  let ?message = "str ''Error: Don'' @ [0x27] @ str ''t know what to do with ''
                 @ showNat (length leftover) @ str '' argument(s): ''
                 @ joinWith (str '','') leftover"
  have "fst (parseArgs args) = Inl ?message"
    using assms by (simp add: parseArgs_def unknownArguments_def)
  moreover have "sublist (showNat (length leftover)) ?message"
    by (simp only: sublist_append) blast
  moreover have "sublist token ?message" if "token \<in> set leftover" for token
    using sublist_joinWith [OF that, of "str '',''"] by (simp only: sublist_append) blast
  ultimately show ?thesis by blast
qed

theorem leftover_tokens_rejected_witness:
  "readOption (str ''--replica-host'')
       [str ''--replica-host'', str ''http://h'', str ''--by-id'', str ''a:80'',
        str ''--verbose'', str ''x'']
     = (Inr (Some (str ''http://h'')),
        [str ''--by-id'', str ''a:80'', str ''--verbose'', str ''x''])
   \<and> readOption (str ''--canister-ids-file'')
       [str ''--by-id'', str ''a:80'', str ''--verbose'', str ''x'']
     = (Inr None, [str ''--by-id'', str ''a:80'', str ''--verbose'', str ''x''])
   \<and> parseCanisterIdToPort [str ''--by-id'', str ''a:80'', str ''--verbose'', str ''x'']
     = (Inr [(str ''a'', Finite 80)], [str ''--verbose'', str ''x''])
   \<and> parseCanisterNameToPort [str ''--verbose'', str ''x'']
     = (Inr [], [str ''--verbose'', str ''x''])
   \<and> [str ''--verbose'', str ''x''] \<noteq> []
   \<and> fst (parseArgs [str ''--replica-host'', str ''http://h'', str ''--by-id'', str ''a:80'',
                      str ''--verbose'', str ''x''])
     = Inl (str ''Error: Don'' @ [0x27]
            @ str ''t know what to do with 2 argument(s): --verbose,x'')"
proof -
  have a: "readOption (str ''--replica-host'')
       [str ''--replica-host'', str ''http://h'', str ''--by-id'', str ''a:80'',
        str ''--verbose'', str ''x'']
     = (Inr (Some (str ''http://h'')),
        [str ''--by-id'', str ''a:80'', str ''--verbose'', str ''x''])"
    by (simp add: readOption_def spliceJS_def)
  have b: "readOption (str ''--canister-ids-file'')
       [str ''--by-id'', str ''a:80'', str ''--verbose'', str ''x'']
     = (Inr None, [str ''--by-id'', str ''a:80'', str ''--verbose'', str ''x''])"
    by (simp add: readOption_def)
  have c: "parseCanisterIdToPort [str ''--by-id'', str ''a:80'', str ''--verbose'', str ''x'']
     = (Inr [(str ''a'', Finite 80)], [str ''--verbose'', str ''x''])"
    by code_simp
  have d: "parseCanisterNameToPort [str ''--verbose'', str ''x'']
     = (Inr [], [str ''--verbose'', str ''x''])"
    by code_simp
  have e: "[str ''--verbose'', str ''x''] \<noteq> ([] :: jsstring list)" by simp
  have n: "showNat (Suc (Suc 0)) = str ''2''" by code_simp
  from leftover_tokens_rejected [OF a b c d e] a b c d show ?thesis
    by (auto simp: n)
qed

section \<open>C8: a repeated \<^verbatim>\<open>--replica-host\<close>\<close>

text \<open>
  C8, as claimed: every argument list with two or more occurrences of
  \<^verbatim>\<open>--replica-host\<close> is rejected.  Two lists with two occurrences are accepted: in the
  first the second occurrence is taken as the value of the first, in the second it is
  taken as the value of \<^verbatim>\<open>--canister-ids-file\<close>.
\<close>

theorem second_replica_host_accepted:
  "count_list [str ''--replica-host'', str ''--replica-host'', str ''--by-id'', str ''a:80'']
     (str ''--replica-host'') = 2
   \<and> fst (parseArgs [str ''--replica-host'', str ''--replica-host'', str ''--by-id'',
                      str ''a:80''])
       = Inr \<lparr> replicaHost = Some (str ''--replica-host''),
               canisterIdToPort = [(str ''a'', Finite 80)],
               canisterNameToPort = [], canisterNameToId = [], canisterIdsFile = None \<rparr>
   \<and> count_list [str ''--replica-host'', str ''http://h'', str ''--canister-ids-file'',
                   str ''--replica-host'', str ''--by-id'', str ''a:80'']
        (str ''--replica-host'') = 2
   \<and> fst (parseArgs [str ''--replica-host'', str ''http://h'', str ''--canister-ids-file'',
                      str ''--replica-host'', str ''--by-id'', str ''a:80''])
       = Inr \<lparr> replicaHost = Some (str ''http://h''),
               canisterIdToPort = [(str ''a'', Finite 80)],
               canisterNameToPort = [], canisterNameToId = [],
               canisterIdsFile = Some (str ''--replica-host'') \<rparr>"
  by code_simp

text \<open>
  C8, amended: for every argument list with two or more occurrences of \<^verbatim>\<open>--replica-host\<close>,
  parsing returns an error, or it returns a configuration in which the token
  \<^verbatim>\<open>--replica-host\<close> itself is the replica host or the path of the canister ids file: an
  occurrence was read as the value of the first \<^verbatim>\<open>--replica-host\<close> or of
  \<^verbatim>\<open>--canister-ids-file\<close>.  No other list with a repeated \<^verbatim>\<open>--replica-host\<close> is accepted.
\<close>

theorem repeated_replica_host:
  assumes "2 \<le> count_list args (str ''--replica-host'')"
  shows "(\<exists>message. fst (parseArgs args) = Inl message)
       \<or> (\<exists>cfg. fst (parseArgs args) = Inr cfg
              \<and> (replicaHost cfg = Some (str ''--replica-host'')
                   \<or> canisterIdsFile cfg = Some (str ''--replica-host'')))"
proof -
  let ?flag = "str ''--replica-host''"
  from count_list_two [OF assms] obtain pre post
    where args: "args = pre @ ?flag # post" and pre: "?flag \<notin> set pre" and post: "?flag \<in> set post"
    by blast
  from post obtain url post' where p: "post = url # post'" by (cases post) auto
  show ?thesis
  proof (cases "url = ?flag")
    case True
    have a1: "readOption ?flag args = (Inr (Some ?flag), pre @ post')"
      using pre unfolding args p True
      by (simp add: readOption_def indexOf_append_first spliceJS_pair)
    show ?thesis
    proof (cases "fst (parseArgs args)")
      case (Inl message)
      then show ?thesis by blast
    next
      case (Inr cfg)
      with a1 have "replicaHost cfg = Some ?flag"
        by (auto simp: parseArgs_def split: prod.splits sum.splits if_splits)
      with Inr show ?thesis by blast
    qed
  next
    case False
    with post p have "?flag \<in> set post'" by simp
    from replica_host_behind_first [OF pre this, of url] show ?thesis
      unfolding args p by blast
  qed
qed

theorem repeated_replica_host_witness:
  "2 \<le> count_list [str ''--replica-host'', str ''http://a'', str ''--replica-host'',
                     str ''http://b'', str ''--by-id'', str ''a:80''] (str ''--replica-host'')
   \<and> fst (parseArgs [str ''--replica-host'', str ''http://a'', str ''--replica-host'',
                      str ''http://b'', str ''--by-id'', str ''a:80''])
       = Inl (str ''Error: Don'' @ [0x27]
              @ str ''t know what to do with 2 argument(s): --replica-host,http://b'')
   \<and> (\<forall>cfg. fst (parseArgs [str ''--replica-host'', str ''http://a'', str ''--replica-host'',
                             str ''http://b'', str ''--by-id'', str ''a:80'']) \<noteq> Inr cfg)"
proof -
  let ?args = "[str ''--replica-host'', str ''http://a'', str ''--replica-host'',
                str ''http://b'', str ''--by-id'', str ''a:80'']"
  have a: "2 \<le> count_list ?args (str ''--replica-host'')" by simp
  have run: "fst (parseArgs ?args)
       = Inl (str ''Error: Don'' @ [0x27]
              @ str ''t know what to do with 2 argument(s): --replica-host,http://b'')"
    by code_simp
  from repeated_replica_host [OF a] run a show ?thesis
    by simp
qed

section \<open>C9: the round trip of the specification\<close>

text \<open>
  C9.  With a lookup file holding \<^verbatim>\<open>{"foo": {"local": "xyz"}}\<close>, the arguments
  \<^verbatim>\<open>--replica-host <url> --by-id abc:8080 --by-name foo:9090 --canister-ids-file <path>\<close>
  start the proxies of exactly \<^verbatim>\<open>abc\<close> on 8080 and \<^verbatim>\<open>xyz\<close> on 9090.  The url and
  the path are not empty (an empty string is falsy: no host, no file) and are not the
  token \<^verbatim>\<open>--help\<close>.
\<close>

theorem round_trip_example:
  assumes "url \<noteq> []" and "url \<noteq> str ''--help''" and "path \<noteq> []" and "path \<noteq> str ''--help''"
    and "fs path = Some [(str ''foo'', Local (str ''xyz''))]"
  shows "main fs [str ''--replica-host'', url, str ''--by-id'', str ''abc:8080'',
                  str ''--by-name'', str ''foo:9090'', str ''--canister-ids-file'', path]
         = Proxying url [(str ''abc'', Finite 8080), (str ''xyz'', Finite 9090)]"
proof -
  let ?args = "[str ''--replica-host'', url, str ''--by-id'', str ''abc:8080'',
                str ''--by-name'', str ''foo:9090'', str ''--canister-ids-file'', path]"
  have h0: "indexOf ?args (str ''--help'') = None"
    using assms by simp
  have h1: "readOption (str ''--replica-host'') ?args
                = (Inr (Some url),
                   [str ''--by-id'', str ''abc:8080'', str ''--by-name'', str ''foo:9090'',
                    str ''--canister-ids-file'', path])"
    by (simp add: readOption_def spliceJS_def)
  have h2: "readOption (str ''--canister-ids-file'')
                [str ''--by-id'', str ''abc:8080'', str ''--by-name'', str ''foo:9090'',
                 str ''--canister-ids-file'', path]
                = (Inr (Some path),
                   [str ''--by-id'', str ''abc:8080'', str ''--by-name'', str ''foo:9090''])"
    by (simp add: readOption_def spliceJS_def)
  have h3: "parseCanisterIdToPort
                [str ''--by-id'', str ''abc:8080'', str ''--by-name'', str ''foo:9090'']
               = (Inr [(str ''abc'', Finite 8080)], [str ''--by-name'', str ''foo:9090''])"
    by code_simp
  have h4: "parseCanisterNameToPort [str ''--by-name'', str ''foo:9090'']
               = (Inr [(str ''foo'', Finite 9090)], [])"
    by code_simp
  have h5: "fst (getConfig ?args)
                  = Inr \<lparr> replicaHost = Some url, canisterIdToPort = [(str ''abc'', Finite 8080)],
                          canisterNameToPort = [(str ''foo'', Finite 9090)],
                          canisterNameToId = [], canisterIdsFile = Some path \<rparr>"
    using h1 h2 h3 h4 by (simp add: getConfig_def parseArgs_def)
  have h6: "forIn [(str ''abc'', Finite 8080)] = [(str ''abc'', Finite 8080)]"
    "forIn [(str ''foo'', Finite 9090)] = [(str ''foo'', Finite 9090)]"
    by code_simp+
  have h7: "loadCanisterIds fs (Some path) [] = Inr [(str ''foo'', str ''xyz'')]"
    using assms by (simp add: loadCanisterIds_def setProp_def)
  have h8: "resolveNames [(str ''foo'', str ''xyz'')] [(str ''foo'', Finite 9090)]
                   [(str ''abc'', Finite 8080)]
                   = Inr [(str ''abc'', Finite 8080), (str ''xyz'', Finite 9090)]"
    by code_simp
  show ?thesis
    unfolding main_def h0 h5 using assms(1) h6 h7 h8
    by (simp del: resolveNames.simps)
qed

theorem round_trip_example_witness:
  "str ''http://localhost:8000'' \<noteq> [] \<and> str ''http://localhost:8000'' \<noteq> str ''--help''
   \<and> str ''ids.json'' \<noteq> [] \<and> str ''ids.json'' \<noteq> str ''--help''
   \<and> exampleFiles (str ''ids.json'') = Some [(str ''foo'', Local (str ''xyz''))]
   \<and> main exampleFiles
        [str ''--replica-host'', str ''http://localhost:8000'', str ''--by-id'', str ''abc:8080'',
         str ''--by-name'', str ''foo:9090'', str ''--canister-ids-file'', str ''ids.json'']
       = Proxying (str ''http://localhost:8000'')
           [(str ''abc'', Finite 8080), (str ''xyz'', Finite 9090)]"
proof -
  have f: "exampleFiles (str ''ids.json'') = Some [(str ''foo'', Local (str ''xyz''))]"
    by (simp add: exampleFiles_def)
  have "main exampleFiles
        [str ''--replica-host'', str ''http://localhost:8000'', str ''--by-id'', str ''abc:8080'',
         str ''--by-name'', str ''foo:9090'', str ''--canister-ids-file'', str ''ids.json'']
       = Proxying (str ''http://localhost:8000'')
           [(str ''abc'', Finite 8080), (str ''xyz'', Finite 9090)]"
    by (rule round_trip_example [of "str ''http://localhost:8000''" "str ''ids.json''"
          exampleFiles, OF _ _ _ _ f]) simp_all
  with f show ?thesis by simp
qed

section \<open>C10: the parser consumes the array of its caller\<close>

text \<open>
  C10.  The second component of \<^verbatim>\<open>getConfig\<close> is the contents of the caller's array when
  the call returns.  Whether the parse succeeds or fails, it is what the forward scan
  leaves: the array without the first \<^verbatim>\<open>--replica-host\<close> and the token behind it, without
  the first \<^verbatim>\<open>--canister-ids-file\<close> and the token behind it, and without the \<^verbatim>\<open>--by-id\<close>
  and \<^verbatim>\<open>--by-name\<close> flags and the tokens behind them, up to and including the flag at which
  a stage fails.  Tokens are only ever removed.  The parse succeeds exactly when every stage
  goes through and nothing is left, so after a successful parse the array is empty.
\<close>

theorem parse_consumes_callers_array:
  "snd (getConfig args) = snd (remainingArgs args)
   \<and> ((\<exists>cfg. fst (getConfig args) = Inr cfg) \<longleftrightarrow> fst (remainingArgs args))
   \<and> subseq (snd (getConfig args)) args
   \<and> (\<forall>cfg. fst (getConfig args) = Inr cfg \<longrightarrow> snd (getConfig args) = [])"
  unfolding getConfig_def
  using parseArgs_remainingArgs [of args] parseArgs_success_empty [of args]
    parseArgs_subseq [of args]
  by blast

theorem parse_consumes_callers_array_witness:
  "fst (getConfig [str ''--replica-host'', str ''http://h'', str ''--by-id'', str ''a:80''])
       = Inr \<lparr> replicaHost = Some (str ''http://h''),
               canisterIdToPort = [(str ''a'', Finite 80)],
               canisterNameToPort = [], canisterNameToId = [], canisterIdsFile = None \<rparr>
   \<and> remainingArgs [str ''--replica-host'', str ''http://h'', str ''--by-id'', str ''a:80'']
       = (True, [])
   \<and> snd (getConfig [str ''--replica-host'', str ''http://h'', str ''--by-id'', str ''a:80''])
       = []
   \<and> remainingArgs [str ''x'', str ''--replica-host'', str ''http://h'', str ''--by-id'',
                     str ''a:b'', str ''y'', str ''--by-id'', str ''c:1'']
       = (False, [str ''x'', str ''y'', str ''--by-id'', str ''c:1''])
   \<and> getConfig [str ''x'', str ''--replica-host'', str ''http://h'', str ''--by-id'',
                 str ''a:b'', str ''y'', str ''--by-id'', str ''c:1'']
       = (Inl (str ''Could not parse port '' @ quoted (str ''b'') @ str '' as number''),
          [str ''x'', str ''y'', str ''--by-id'', str ''c:1''])"
proof -
  let ?ok = "[str ''--replica-host'', str ''http://h'', str ''--by-id'', str ''a:80'']"
  let ?bad = "[str ''x'', str ''--replica-host'', str ''http://h'', str ''--by-id'',
               str ''a:b'', str ''y'', str ''--by-id'', str ''c:1'']"
  have run: "fst (getConfig ?ok)
       = Inr \<lparr> replicaHost = Some (str ''http://h''),
               canisterIdToPort = [(str ''a'', Finite 80)],
               canisterNameToPort = [], canisterNameToId = [], canisterIdsFile = None \<rparr>"
    by code_simp
  have scan: "remainingArgs ?ok = (True, [])"
    by code_simp
  have scan': "remainingArgs ?bad = (False, [str ''x'', str ''y'', str ''--by-id'', str ''c:1''])"
    by code_simp
  have err: "fst (getConfig ?bad)
       = Inl (str ''Could not parse port '' @ quoted (str ''b'') @ str '' as number'')"
    by code_simp
  from parse_consumes_callers_array [of ?ok] run
  have "snd (getConfig ?ok) = []" by blast
  moreover from parse_consumes_callers_array [of ?bad]
  have "snd (getConfig ?bad) = snd (remainingArgs ?bad)" by blast
  then have "snd (getConfig ?bad) = [str ''x'', str ''y'', str ''--by-id'', str ''c:1'']"
    by (simp only: scan' snd_conv)
  with err have "getConfig ?bad
       = (Inl (str ''Could not parse port '' @ quoted (str ''b'') @ str '' as number''),
          [str ''x'', str ''y'', str ''--by-id'', str ''c:1''])"
    by (simp add: prod_eq_iff)
  ultimately show ?thesis using run scan scan' by simp
qed

end
